theory Spec2Isabelle
  imports Main
begin

section \<open>The browser session as seen by the checkout script\<close>

text \<open>
  The script drives a browser page through awaited calls. Each awaited call either
  resolves or rejects with an \<open>Error\<close>; which of the two happens is decided by the page, not
  by the script. An environment fixes, for one run, the outcome of every awaited call and
  the values the page reports. A call site is named by the line of the call in the
  source, followed by the indices of the enclosing loops, so that distinct calls have
  distinct outcomes.
\<close>

type_synonym fault = string

type_synonym site = "nat list"

text \<open>The structured outcome handed to the callbacks and returned by \<open>handlePayment\<close>.\<close>

record outcome =
  success :: bool
  message :: "string option"
  error :: "string option"

text \<open>
  What a call is applied to: a page-level selector, the first match of a selector inside
  the payment frame, or the i-th element of \<open>frame.locator('input').all()\<close>.
\<close>

datatype target = Sel string | InFrame string | Input nat

datatype call =
    Launch bool
  | NewPage
  | Goto string
  | Evaluate string
  | Click target
  | Fill target string
  | WaitForSelector string nat
  | WaitFor target string nat
  | WaitForTimeout nat
  | ContentFrame
  | AllInputs
  | IsVisible target nat
  | IsEnabled target
  | GetAttribute target string
  | MonitorPaymentErrors
  | Screenshot
  | Close
  | OnComplete outcome
  | OnError outcome

text \<open>A run leaves a trace: every call that was issued, and whether it resolved.\<close>

datatype event = Did call | Threw call

text \<open>One input element of the payment frame, as the probes of lines 330-334 see it.\<close>

record frameInput =
  isVisible :: bool
  isEnabled :: bool
  typeAttr :: "string option"
  nameAttr :: "string option"
  idAttr :: "string option"

text \<open>One element matched by an error selector, as the probes of lines 440-441 see it.\<close>

record errorEl =
  elVisible :: bool
  elText :: "string option"

record env =
  faultAt :: "site \<Rightarrow> fault option"
  hasFrame :: bool
  cardVisible :: bool
  allInputs :: "frameInput list"
  fallbackVisible :: "string \<Rightarrow> bool"
  placeEnabled :: bool
  errorElements :: "nat \<Rightarrow> string \<Rightarrow> errorEl list"

text \<open>
  A computation yields the events it produced and either the fault it threw (\<open>Inl\<close>) or
  its value (\<open>Inr\<close>).
\<close>

type_synonym 'a run = "event list \<times> (fault + 'a)"

definition bnd :: "'a run \<Rightarrow> ('a \<Rightarrow> 'b run) \<Rightarrow> 'b run" where
  "bnd m f =
     (case m of
        (es, Inl x) \<Rightarrow> (es, Inl x)
      | (es, Inr a) \<Rightarrow> (case f a of (es', r) \<Rightarrow> (es @ es', r)))"

definition await :: "env \<Rightarrow> site \<Rightarrow> call \<Rightarrow> unit run" where
  "await e s c =
     (case faultAt e s of
        None \<Rightarrow> ([Did c], Inr ())
      | Some m \<Rightarrow> ([Threw c], Inl m))"

text \<open>A straight-line sequence of awaited calls: the first rejection ends it.\<close>

fun steps :: "env \<Rightarrow> (site \<times> call) list \<Rightarrow> unit run" where
  "steps e [] = ([], Inr ())"
| "steps e ((s, c) # cs) = bnd (await e s c) (\<lambda>_. steps e cs)"

section \<open>Strings\<close>

text \<open>
  Strings are lists of characters, a character being a code unit below 256: the texts
  modelled are those over U+0000 to U+00FF. On these, \<open>toLowerCase\<close> lowers the letters
  A-Z and the capital letters U+00C0 to U+00DE (the multiplication sign U+00D7 apart),
  and the white space that \<open>trim\<close> removes is tab, line feed, vertical tab, form feed,
  carriage return, space and the no-break space U+00A0.
\<close>

definition toLowerChar :: "char \<Rightarrow> char" where
  "toLowerChar c =
     (let n = (of_char c :: nat)
      in if (65 \<le> n \<and> n \<le> 90) \<or> (192 \<le> n \<and> n \<le> 222 \<and> n \<noteq> 215) then char_of (n + 32)
         else c)"

definition toLowerCase :: "string \<Rightarrow> string" where
  "toLowerCase s = map toLowerChar s"

definition isSpace :: "char \<Rightarrow> bool" where
  "isSpace c = ((of_char c :: nat) \<in> {9, 10, 11, 12, 13, 32, 160})"

definition trim :: "string \<Rightarrow> string" where
  "trim s = rev (dropWhile isSpace (rev (dropWhile isSpace s)))"

fun startsWith :: "string \<Rightarrow> string \<Rightarrow> bool" where
  "startsWith s [] = True"
| "startsWith [] (k # ks) = False"
| "startsWith (c # cs) (k # ks) = (c = k \<and> startsWith cs ks)"

fun includesStr :: "string \<Rightarrow> string \<Rightarrow> bool" where
  "includesStr [] k = (k = [])"
| "includesStr (c # cs) k = (startsWith (c # cs) k \<or> includesStr cs k)"

section \<open>monitorPaymentErrors (lines 419-466)\<close>

record pollResult =
  errorFound :: bool
  errorMessage :: string
  timing :: nat

definition maxChecks :: nat where
  "maxChecks = 50"

definition errorSelectors :: "string list" where
  \<open>errorSelectors = [''.payment-error'', ''.card-error'', ''.error-message'', ''[role="alert"]'']\<close>

text \<open>The condition of lines 442-446 on a non-null value of \<open>textContent()\<close>.\<close>

definition isErrorText :: "string \<Rightarrow> bool" where
  "isErrorText text =
     (text \<noteq> [] \<and> trim text \<noteq> [] \<and>
      (includesStr (toLowerCase text) ''invalid'' \<or>
       includesStr (toLowerCase text) ''declined'' \<or>
       includesStr (toLowerCase text) ''error'' \<or>
       includesStr (toLowerCase text) ''failed''))"

text \<open>
  The inner loop of lines 439-455 over the elements of selector number \<open>si\<close> at check
  \<open>k\<close>, from element \<open>j\<close> on. \<open>Inr (Some m)\<close>: a match with trimmed text \<open>m\<close>;
  \<open>Inr None\<close>: no match; \<open>Inl\<close>: a probe threw, which line 459 catches.
\<close>

fun scanElements :: "env \<Rightarrow> nat \<Rightarrow> nat \<Rightarrow> nat \<Rightarrow> errorEl list \<Rightarrow> fault + string option" where
  "scanElements e k si j [] = Inr None"
| "scanElements e k si j (el # els) =
     (case faultAt e [440, k, si, j] of
        Some m \<Rightarrow> Inl m
      | None \<Rightarrow>
          if elVisible el then
            (case faultAt e [441, k, si, j] of
               Some m \<Rightarrow> Inl m
             | None \<Rightarrow>
                 (case elText el of
                    None \<Rightarrow> scanElements e k si (Suc j) els
                  | Some text \<Rightarrow>
                      if isErrorText text then Inr (Some (trim text))
                      else scanElements e k si (Suc j) els))
          else scanElements e k si (Suc j) els)"

text \<open>The outer loop of lines 437-456 over the selectors, from selector number \<open>si\<close> on.\<close>

fun scanSelectors :: "env \<Rightarrow> nat \<Rightarrow> nat \<Rightarrow> string list \<Rightarrow> fault + string option" where
  "scanSelectors e k si [] = Inr None"
| "scanSelectors e k si (sel # sels) =
     (case faultAt e [438, k, si] of
        Some m \<Rightarrow> Inl m
      | None \<Rightarrow>
          (case scanElements e k si 0 (errorElements e k sel) of
             Inr None \<Rightarrow> scanSelectors e k (Suc si) sels
           | r \<Rightarrow> r))"

text \<open>
  \<open>checkForErrors\<close> with its three captured variables as arguments. A call that neither
  resolves nor matches schedules the next call (lines 458 and 460).
\<close>

function checkForErrors :: "env \<Rightarrow> bool \<Rightarrow> string \<Rightarrow> nat \<Rightarrow> pollResult" where
  "checkForErrors e found msg checkCount =
     (if found \<or> checkCount \<ge> maxChecks
      then \<lparr>errorFound = found, errorMessage = msg, timing = checkCount * 200\<rparr>
      else
        (case scanSelectors e (checkCount + 1) 0 errorSelectors of
           Inr (Some m) \<Rightarrow>
             \<lparr>errorFound = True, errorMessage = m, timing = (checkCount + 1) * 200\<rparr>
         | _ \<Rightarrow> checkForErrors e found msg (checkCount + 1)))"
  by pat_completeness auto
termination
  by (relation "measure (\<lambda>(e, found, msg, checkCount). maxChecks - checkCount)") auto

definition monitorPaymentErrors :: "env \<Rightarrow> pollResult" where
  "monitorPaymentErrors e = checkForErrors e False [] 0"

section \<open>The checkout object (constructor, lines 5-32)\<close>

record userInfo =
  firstName :: string
  lastName :: string
  email :: string
  phone :: string

record shippingInfo =
  shipFirstName :: string
  shipLastName :: string
  address :: string
  city :: string
  zipCode :: string

record paymentInfo =
  cardholderName :: string
  cardNumber :: string
  cvv :: string
  expiryDate :: string

text \<open>
  The callbacks are opaque functions: the object records whether each one is set
  (non-null); what a call of one does is an outcome of the environment.
\<close>

record checkout =
  productUrl :: "string option"
  userInfo :: userInfo
  shippingInfo :: shippingInfo
  paymentInfo :: paymentInfo
  headless :: bool
  onComplete :: bool
  onError :: bool

text \<open>
  The \<open>options\<close> argument and \<open>process.env\<close> are objects with string-valued
  properties, an absent property being \<open>undefined\<close>.
\<close>

record options =
  props :: "string \<rightharpoonup> string"
  optHeadless :: bool
  optOnComplete :: bool
  optOnError :: bool

type_synonym processEnv = "string \<rightharpoonup> string"

text \<open>JavaScript's \<open>a || b\<close> on values that are \<open>undefined\<close> or strings.\<close>

definition truthy :: "string option \<Rightarrow> bool" where
  "truthy v = (case v of None \<Rightarrow> False | Some s \<Rightarrow> s \<noteq> [])"

definition orElse :: "string option \<Rightarrow> string option \<Rightarrow> string option" where
  "orElse a b = (if truthy a then a else b)"

definition orDefault :: "string option \<Rightarrow> string \<Rightarrow> string" where
  "orDefault a d = (case a of None \<Rightarrow> d | Some s \<Rightarrow> if s = [] then d else s)"

definition newCheckout :: "options \<Rightarrow> processEnv \<Rightarrow> checkout" where
  "newCheckout opts penv =
     \<lparr>productUrl = orElse (props opts ''productUrl'') (penv ''PRODUCT_URL''),
      userInfo =
        \<lparr>firstName = orDefault (orElse (props opts ''firstName'') (penv ''CHECKOUT_FIRST_NAME'')) ''TEST_FIRST'',
         lastName = orDefault (orElse (props opts ''lastName'') (penv ''CHECKOUT_LAST_NAME'')) ''TEST_LAST'',
         email = orDefault (orElse (props opts ''email'') (penv ''CHECKOUT_EMAIL'')) ''test@example.com'',
         phone = orDefault (orElse (props opts ''phone'') (penv ''CHECKOUT_PHONE'')) ''1234567890''\<rparr>,
      shippingInfo =
        \<lparr>shipFirstName = orDefault (orElse (props opts ''firstName'') (penv ''CHECKOUT_FIRST_NAME'')) ''TEST_FIRST'',
         shipLastName = orDefault (orElse (props opts ''lastName'') (penv ''CHECKOUT_LAST_NAME'')) ''TEST_LAST'',
         address = orDefault (orElse (props opts ''address'') (penv ''CHECKOUT_ADDRESS'')) ''520 CHESTNUT ST'',
         city = orDefault (orElse (props opts ''city'') (penv ''CHECKOUT_CITY'')) ''PHILADELPHIA'',
         zipCode = orDefault (orElse (props opts ''zipCode'') (penv ''CHECKOUT_ZIP'')) ''19106''\<rparr>,
      paymentInfo =
        \<lparr>cardholderName = orDefault (orElse (props opts ''cardholderName'') (penv ''CHECKOUT_CARDHOLDER_NAME'')) ''TEST CARDHOLDER'',
         cardNumber = orDefault (orElse (props opts ''cardNumber'') (penv ''CHECKOUT_CARD_NUMBER'')) ''4111111111111111'',
         cvv = orDefault (orElse (props opts ''cvv'') (penv ''CHECKOUT_CVV'')) ''123'',
         expiryDate = orDefault (orElse (props opts ''expiryDate'') (penv ''CHECKOUT_EXPIRY'')) ''12/25''\<rparr>,
      headless = (optHeadless opts \<or> penv ''CHECKOUT_HEADLESS'' = Some ''true''),
      onComplete = optOnComplete opts,
      onError = optOnError opts\<rparr>"

section \<open>validateConfiguration (lines 34-54)\<close>

definition testValues :: "string list" where
  "testValues =
     [''TEST_FIRST'', ''TEST_LAST'', ''test@example.com'', ''1234567890'', ''123 TEST ST'',
      ''TEST CITY'', ''12345'', ''TEST CARDHOLDER'', ''4111111111111111'', ''123'', ''12/25'']"

definition currentValues :: "checkout \<Rightarrow> string list" where
  "currentValues c =
     [firstName (userInfo c), lastName (userInfo c), email (userInfo c), phone (userInfo c),
      address (shippingInfo c), city (shippingInfo c), zipCode (shippingInfo c),
      cardholderName (paymentInfo c), cardNumber (paymentInfo c), cvv (paymentInfo c),
      expiryDate (paymentInfo c)]"

definition usingTestData :: "checkout \<Rightarrow> bool" where
  "usingTestData c = list_ex (\<lambda>v. v \<in> set testValues) (currentValues c)"

text \<open>
  The lines written to the console, without their leading pictographs and line breaks.
  The method returns nothing and assigns no field.
\<close>

definition warningLines :: "string list" where
  "warningLines =
     [''WARNING: Using placeholder/test data for checkout!'',
      ''To use real information, set these environment variables:'',
      ''   CHECKOUT_FIRST_NAME, CHECKOUT_LAST_NAME, CHECKOUT_EMAIL'',
      ''   CHECKOUT_PHONE, CHECKOUT_ADDRESS, CHECKOUT_CITY, CHECKOUT_ZIP'',
      ''   CHECKOUT_CARDHOLDER_NAME, CHECKOUT_CARD_NUMBER, CHECKOUT_CVV, CHECKOUT_EXPIRY'',
      ''This will likely result in checkout failure with test data.'']"

definition validateConfiguration :: "checkout \<Rightarrow> string list" where
  "validateConfiguration c =
     (if usingTestData c then warningLines
      else [''Using configured personal information for checkout''])"

text \<open>The constructor: the object it builds and the lines it logs. It has no throw.\<close>

definition FWGSCheckout :: "options \<Rightarrow> processEnv \<Rightarrow> checkout \<times> string list" where
  "FWGSCheckout opts penv =
     (let this = newCheckout opts penv in (this, validateConfiguration this))"

section \<open>try, catch and finally\<close>

definition tryCatch :: "'a run \<Rightarrow> (fault \<Rightarrow> 'a run) \<Rightarrow> 'a run" where
  "tryCatch m h =
     (case m of
        (es, Inr a) \<Rightarrow> (es, Inr a)
      | (es, Inl x) \<Rightarrow> (case h x of (es', r) \<Rightarrow> (es @ es', r)))"

text \<open>A fault of the \<open>finally\<close> block replaces the pending result.\<close>

definition tryFinally :: "'a run \<Rightarrow> unit run \<Rightarrow> 'a run" where
  "tryFinally m fin =
     (case m of
        (es, r) \<Rightarrow>
          (case fin of
             (es', Inl x) \<Rightarrow> (es @ es', Inl x)
           | (es', Inr u) \<Rightarrow> (es @ es', r)))"

text \<open>\<open>try { m } catch (e) { }\<close> with a handler that only logs.\<close>

definition swallow :: "unit run \<Rightarrow> unit run" where
  "swallow m = tryCatch m (\<lambda>x. ([], Inr ()))"

section \<open>createBrowser and the timer overlay (lines 56-142)\<close>

definition createBrowser :: "checkout \<Rightarrow> env \<Rightarrow> unit run" where
  "createBrowser c e = steps e [([57], Launch (headless c)), ([70], NewPage)]"

definition addSimpleTimer :: "env \<Rightarrow> unit run" where
  "addSimpleTimer e = swallow (await e [82] (Evaluate ''addSimpleTimer''))"

definition stopTimer :: "env \<Rightarrow> unit run" where
  "stopTimer e = swallow (await e [124] (Evaluate ''stopTimer''))"

section \<open>navigateToCheckout (lines 206-232)\<close>

definition strategies :: "(site \<times> call) list" where
  \<open>strategies =
     [([212], Click (Sel ''button.cart-link'')),
      ([213], Click (Sel ''button:has-text("Checkout")'')),
      ([214], Click (Sel ''a:has-text("Checkout")''))]\<close>

text \<open>
  The loop of lines 217-225 over the remaining strategies; the boolean is
  \<open>checkoutClicked\<close>.
\<close>

fun tryStrategies :: "env \<Rightarrow> (site \<times> call) list \<Rightarrow> event list \<times> bool" where
  "tryStrategies e [] = ([], False)"
| "tryStrategies e ((s, c) # rest) =
     (case await e s c of
        (es, Inr u) \<Rightarrow> (es, True)
      | (es, Inl x) \<Rightarrow> (case tryStrategies e rest of (es', b) \<Rightarrow> (es @ es', b)))"

definition navigateToCheckout :: "env \<Rightarrow> unit run" where
  \<open>navigateToCheckout e =
     bnd (steps e [([207], Click (Sel ''button[aria-label="Cart"]'')),
                   ([208], WaitForTimeout 2000)]) (\<lambda>_.
       case tryStrategies e strategies of
         (es, checkoutClicked) \<Rightarrow>
           if \<not> checkoutClicked then (es, Inl ''Could not find checkout button'')
           else bnd (es, Inr ()) (\<lambda>_. steps e [([231], WaitForTimeout 2000)]))\<close>

section \<open>fillContactInfo (lines 234-256)\<close>

definition submitButton :: target where
  \<open>submitButton = Sel ''button[type="submit"]:visible:not([disabled]):not(.address__button--hidden)''\<close>

definition fillContactInfo :: "checkout \<Rightarrow> env \<Rightarrow> unit run" where
  \<open>fillContactInfo c e =
     steps e
       [([236], WaitForSelector ''input[id="contact_info_profile-firstName"]'' 8000),
        ([237], WaitForTimeout 1000),
        ([239], Fill (Sel ''input[id="contact_info_profile-firstName"]'') (firstName (userInfo c))),
        ([240], WaitForTimeout 150),
        ([241], Fill (Sel ''input[id="contact_info_profile-lastName"]'') (lastName (userInfo c))),
        ([242], WaitForTimeout 100),
        ([243], Fill (Sel ''input[id="contact_info_profile-email"]'') (email (userInfo c))),
        ([244], WaitForTimeout 50),
        ([245], Fill (Sel ''input[id="contact_info_profile-phoneNumber"]'') (phone (userInfo c))),
        ([246], WaitForTimeout 200),
        ([250], WaitFor submitButton ''visible'' 8000),
        ([251], Click submitButton),
        ([254], WaitForSelector ''input[id="standardOrderAddressForm-firstName"]'' 15000)]\<close>

section \<open>fillShippingInfo (lines 258-293)\<close>

definition useAddressButton :: target where
  \<open>useAddressButton =
     Sel ''div.shipping-modal__suggested-address button.button:has-text("Use this Address")''\<close>

definition continueButton :: target where
  \<open>continueButton = Sel ''button[aria-label="Continue to Payment"]:not([disabled])''\<close>

text \<open>The body of the \<open>try\<close> of lines 280-285.\<close>

definition addressValidation :: "env \<Rightarrow> unit run" where
  \<open>addressValidation e =
     steps e
       [([281], WaitForSelector ''div[role="dialog"][aria-labelledby="validationModal"]'' 8000),
        ([283], WaitFor useAddressButton ''visible'' 4000),
        ([284], Click useAddressButton),
        ([285], WaitForTimeout 3000)]\<close>

text \<open>Lines 260-277: the five fields and the button that leads to the payment page.\<close>

definition shippingForm :: "checkout \<Rightarrow> (site \<times> call) list" where
  \<open>shippingForm c =
       [([261], WaitFor (Sel ''input[id="standardOrderAddressForm-firstName"]'') ''visible'' 8000),
        ([263], Fill (Sel ''input[id="standardOrderAddressForm-firstName"]'') (shipFirstName (shippingInfo c))),
        ([264], WaitForTimeout 125),
        ([265], Fill (Sel ''input[id="standardOrderAddressForm-lastName"]'') (shipLastName (shippingInfo c))),
        ([266], WaitForTimeout 100),
        ([267], Fill (Sel ''input[id="standardOrderAddressForm-streetAddress"]'') (address (shippingInfo c))),
        ([268], WaitForTimeout 100),
        ([269], Fill (Sel ''input[id="standardOrderAddressForm-labelCity"]'') (city (shippingInfo c))),
        ([270], WaitForTimeout 150),
        ([271], Fill (Sel ''input[id="standardOrderAddressForm-labelZipCode"]'') (zipCode (shippingInfo c))),
        ([272], WaitForTimeout 100),
        ([276], WaitFor continueButton ''visible'' 4000),
        ([277], Click continueButton)]\<close>

definition fillShippingInfo :: "checkout \<Rightarrow> env \<Rightarrow> unit run" where
  \<open>fillShippingInfo c e =
     bnd (steps e (shippingForm c)) (\<lambda>_.
     bnd (swallow (addressValidation e)) (\<lambda>_.
     steps e [([291], WaitForSelector ''input[id="input_general"]'' 15000)]))\<close>

section \<open>handlePayment (lines 295-417)\<close>

definition cardField :: target where
  \<open>cardField = InFrame ''input[type="text"], input[type="tel"], input:not([type="hidden"])''\<close>

text \<open>Lines 309-319: the card number is typed only if the field is reported visible.\<close>

definition enterCardNumber :: "checkout \<Rightarrow> env \<Rightarrow> unit run" where
  "enterCardNumber c e =
     bnd (await e [311] (IsVisible cardField 3000)) (\<lambda>_.
       if cardVisible e then
         steps e
           [([312], Click cardField),
            ([313], WaitForTimeout 200),
            ([314], Fill cardField []),
            ([315], WaitForTimeout 800),
            ([316], Fill cardField (cardNumber (paymentInfo c))),
            ([317], WaitForTimeout 400)]
       else ([], Inr ()))"

text \<open>\<open>await input.getAttribute(...) || ''\<close>\<close>

definition orEmpty :: "string option \<Rightarrow> string" where
  "orEmpty a = orDefault a []"

text \<open>The condition of line 338 on input number \<open>i\<close>.\<close>

definition qualifies :: "nat \<Rightarrow> frameInput \<Rightarrow> bool" where
  "qualifies i inp =
     (isVisible inp \<and> isEnabled inp \<and> orEmpty (typeAttr inp) \<noteq> ''hidden'' \<and> i > 0)"

text \<open>
  The body of the \<open>try\<close> of lines 330-348 for input number \<open>i\<close>. Its value is whether
  the CVV was entered, in which case the loop breaks.
\<close>

definition tryInput :: "checkout \<Rightarrow> env \<Rightarrow> nat \<Rightarrow> frameInput \<Rightarrow> bool run" where
  "tryInput c e i inp =
     bnd (steps e
       [([330, i], IsVisible (Input i) 500),
        ([331, i], IsEnabled (Input i)),
        ([332, i], GetAttribute (Input i) ''type''),
        ([333, i], GetAttribute (Input i) ''name''),
        ([334, i], GetAttribute (Input i) ''id'')]) (\<lambda>_.
       if qualifies i inp then
         bnd (steps e
           [([339, i], Click (Input i)),
            ([340, i], WaitForTimeout 300),
            ([341, i], Fill (Input i) []),
            ([342, i], WaitForTimeout 200),
            ([343, i], Fill (Input i) (cvv (paymentInfo c))),
            ([344, i], WaitForTimeout 400)]) (\<lambda>_. ([], Inr True))
       else ([], Inr False))"

text \<open>
  The loop of lines 327-353 from index \<open>i\<close> on. Its value is the index at which it broke
  with \<open>cvvEntered = true\<close>, or \<open>None\<close> when it ran out with \<open>cvvEntered = false\<close>.
  A fault inside the \<open>try\<close> moves on to the next input.
\<close>

fun cvvLoop :: "checkout \<Rightarrow> env \<Rightarrow> nat \<Rightarrow> frameInput list \<Rightarrow> event list \<times> nat option" where
  "cvvLoop c e i [] = ([], None)"
| "cvvLoop c e i (inp # rest) =
     (case tryInput c e i inp of
        (es, Inr True) \<Rightarrow> (es, Some i)
      | (es, r) \<Rightarrow> (case cvvLoop c e (Suc i) rest of (es', found) \<Rightarrow> (es @ es', found)))"

definition cvvSelectors :: "string list" where
  \<open>cvvSelectors =
     [''input[placeholder*="CVV"]'', ''input[placeholder*="CVC"]'',
      ''input[placeholder*="Security"]'', ''input[maxlength="3"]'', ''input[maxlength="4"]'']\<close>

text \<open>The body of the \<open>try\<close> of lines 367-376 for selector number \<open>j\<close>.\<close>

definition trySelector :: "checkout \<Rightarrow> env \<Rightarrow> nat \<Rightarrow> string \<Rightarrow> bool run" where
  "trySelector c e j selector =
     bnd (await e [368, j] (IsVisible (InFrame selector) 1000)) (\<lambda>_.
       if fallbackVisible e selector then
         bnd (steps e
           [([369, j], Click (InFrame selector)),
            ([370, j], WaitForTimeout 300),
            ([371, j], Fill (InFrame selector) (cvv (paymentInfo c))),
            ([372, j], WaitForTimeout 300)]) (\<lambda>_. ([], Inr True))
       else ([], Inr False))"

text \<open>The loop of lines 365-380; its value is the selector that was used, if any.\<close>

fun fallbackLoop :: "checkout \<Rightarrow> env \<Rightarrow> nat \<Rightarrow> string list \<Rightarrow> event list \<times> string option" where
  "fallbackLoop c e j [] = ([], None)"
| "fallbackLoop c e j (selector # rest) =
     (case trySelector c e j selector of
        (es, Inr True) \<Rightarrow> (es, Some selector)
      | (es, r) \<Rightarrow> (case fallbackLoop c e (Suc j) rest of (es', found) \<Rightarrow> (es @ es', found)))"

text \<open>Lines 321-385. Nothing is thrown when no field takes the CVV.\<close>

definition enterCvv :: "checkout \<Rightarrow> env \<Rightarrow> unit run" where
  "enterCvv c e =
     bnd (await e [323] AllInputs) (\<lambda>_.
       case cvvLoop c e 0 (allInputs e) of
         (es, Some i) \<Rightarrow> (es, Inr ())
       | (es, None) \<Rightarrow>
           (case fallbackLoop c e 0 cvvSelectors of (es', found) \<Rightarrow> (es @ es', Inr ())))"

definition expiryField :: target where
  \<open>expiryField = Sel ''input[id="expDate"]''\<close>

definition enterExpiry :: "checkout \<Rightarrow> env \<Rightarrow> unit run" where
  "enterExpiry c e =
     steps e
       [([390], Click expiryField),
        ([391], WaitForTimeout 300),
        ([392], Fill expiryField (expiryDate (paymentInfo c))),
        ([393], WaitForTimeout 300)]"

definition placeOrderButton :: target where
  \<open>placeOrderButton = Sel ''button[id="place-order-button"]''\<close>

text \<open>
  Lines 396-416. The monitor is started before the click and awaited after it; it only
  reads the page, so its result is taken from the environment's error elements.
\<close>

definition placeOrder :: "env \<Rightarrow> outcome run" where
  "placeOrder e =
     bnd (steps e
       [([398], WaitFor placeOrderButton ''visible'' 2000),
        ([400], IsEnabled placeOrderButton)]) (\<lambda>_.
       if placeEnabled e then
         bnd ([Did MonitorPaymentErrors], Inr ()) (\<lambda>_.
         bnd (await e [405] (Click placeOrderButton)) (\<lambda>_.
           let result = monitorPaymentErrors e in
           if errorFound result then
             bnd (stopTimer e) (\<lambda>_.
               ([], Inr \<lparr>success = False, message = None, error = Some (errorMessage result)\<rparr>))
           else ([], Inr \<lparr>success = True, message = None, error = None\<rparr>)))
       else ([], Inr \<lparr>success = True, message = None, error = None\<rparr>))"

text \<open>Lines 297-305: the cardholder name, then the payment frame.\<close>

definition paymentPrelude :: "checkout \<Rightarrow> (site \<times> call) list" where
  \<open>paymentPrelude c =
       [([297], Fill (Sel ''input[id="input_general"]'') (cardholderName (paymentInfo c))),
        ([298], WaitForTimeout 300),
        ([302], WaitFor (Sel ''iframe'') ''attached'' 3000),
        ([303], WaitForTimeout 800),
        ([305], ContentFrame)]\<close>

definition handlePayment :: "checkout \<Rightarrow> env \<Rightarrow> outcome run" where
  \<open>handlePayment c e =
     bnd (steps e (paymentPrelude c)) (\<lambda>_.
       if \<not> hasFrame e then ([], Inl ''Could not access iframe content'')
       else
         bnd (enterCardNumber c e) (\<lambda>_.
         bnd (enterCvv c e) (\<lambda>_.
         bnd (enterExpiry c e) (\<lambda>_.
         placeOrder e))))\<close>

section \<open>executeCheckout (lines 144-204)\<close>

text \<open>Lines 154-186: the stages of the funnel, up to the value of \<open>handlePayment\<close>.\<close>

definition stages :: "checkout \<Rightarrow> string \<Rightarrow> env \<Rightarrow> outcome run" where
  \<open>stages c url e =
     bnd (await e [155] (Goto url)) (\<lambda>_.
     bnd (addSimpleTimer e) (\<lambda>_.
     bnd (steps e
       [([159], Click (Sel ''button[aria-label="Yes, Enter into the site"]'')),
        ([160], WaitForTimeout 300),
        ([163], Click (Sel ''button.link:has-text("Click to see availability")'')),
        ([164], WaitForSelector ''div[role="dialog"][aria-labelledby="fulfillmentMethod"]'' 3000),
        ([167], Evaluate ''selectShip''),
        ([176], Click (Sel ''div.pdp__container button.add-to-cart-button'')),
        ([177], WaitForTimeout 500)]) (\<lambda>_.
     bnd (navigateToCheckout e) (\<lambda>_.
     bnd (fillContactInfo c e) (\<lambda>_.
     bnd (fillShippingInfo c e) (\<lambda>_.
     handlePayment c e))))))\<close>

text \<open>
  The body of the \<open>try\<close>, lines 154-190: the value of \<open>handlePayment\<close> is not used.
\<close>

definition tryBlock :: "checkout \<Rightarrow> string \<Rightarrow> env \<Rightarrow> unit run" where
  "tryBlock c url e =
     bnd (stages c url e) (\<lambda>result.
       if onComplete c then
         await e [189]
           (OnComplete \<lparr>success = True, message = Some ''Checkout completed'', error = None\<rparr>)
       else ([], Inr ()))"

text \<open>The \<open>catch\<close>, lines 192-200: it ends by throwing the caught error again.\<close>

definition catchBlock :: "checkout \<Rightarrow> env \<Rightarrow> fault \<Rightarrow> unit run" where
  "catchBlock c e m =
     bnd (await e [194] Screenshot) (\<lambda>_.
     bnd (if onError c then
            await e [197] (OnError \<lparr>success = False, message = None, error = Some m\<rparr>)
          else ([], Inr ())) (\<lambda>_.
     ([], Inl m)))"

definition executeCheckout :: "checkout \<Rightarrow> env \<Rightarrow> unit run" where
  "executeCheckout c e =
     (case productUrl c of
        None \<Rightarrow> ([], Inl ''Product URL is required. Set PRODUCT_URL environment variable or pass productUrl option.'')
      | Some url \<Rightarrow>
          if url = [] then ([], Inl ''Product URL is required. Set PRODUCT_URL environment variable or pass productUrl option.'')
          else
            bnd (createBrowser c e) (\<lambda>_.
              tryFinally (tryCatch (tryBlock c url e) (catchBlock c e)) (await e [202] Close)))"

section \<open>The claims' vocabulary and sample pages\<close>

text \<open>
  The poller's match as the specification words it: a visible element whose text is not
  empty and contains, lowered, one of the keywords.
\<close>

definition errorKeywords :: "string list" where
  "errorKeywords = [''invalid'', ''declined'', ''error'', ''failed'']"

definition visibleError :: "errorEl \<Rightarrow> bool" where
  "visibleError el =
     (elVisible el \<and>
      (case elText el of
         None \<Rightarrow> False
       | Some t \<Rightarrow> t \<noteq> [] \<and> list_ex (includesStr (toLowerCase t)) errorKeywords))"

text \<open>The elements in the order a check visits them: selector by selector.\<close>

definition scanOrder :: "env \<Rightarrow> nat \<Rightarrow> errorEl list" where
  "scanOrder e k = concat (map (errorElements e k) errorSelectors)"

text \<open>A page on which every call resolves and no error element ever shows.\<close>

definition happyPage :: env where
  "happyPage =
     \<lparr>faultAt = (\<lambda>s. None), hasFrame = True, cardVisible = True,
      allInputs =
        [\<lparr>isVisible = True, isEnabled = True, typeAttr = Some ''text'', nameAttr = None, idAttr = None\<rparr>,
         \<lparr>isVisible = True, isEnabled = True, typeAttr = Some ''text'', nameAttr = None, idAttr = None\<rparr>],
      fallbackVisible = (\<lambda>s. False), placeEnabled = True,
      errorElements = (\<lambda>k s. [])\<rparr>"

text \<open>The same page, showing \<open>Card declined\<close> from the fifth check on.\<close>

definition declinedPage :: env where
  "declinedPage =
     happyPage\<lparr>errorElements :=
       (\<lambda>k s. if 5 \<le> k \<and> s = ''.payment-error''
              then [\<lparr>elVisible = True, elText = Some ''Card declined''\<rparr>] else [])\<rparr>"

text \<open>
  A page that shows, from the third check on, an alert that is not visible and then a
  visible one whose text is in capitals and padded with a no-break space, spaces and a
  line feed.
\<close>

definition paddedText :: string where
  "paddedText = [CHR 0xA0, CHR 0x20] @ ''CARD DECLINED'' @ [CHR 0x20, CHR 0x0A]"

definition shoutingPage :: env where
  \<open>shoutingPage =
     happyPage\<lparr>errorElements :=
       (\<lambda>k s. if 3 \<le> k \<and> s = ''[role="alert"]''
              then [\<lparr>elVisible = False, elText = Some ''Error''\<rparr>,
                    \<lparr>elVisible = True, elText = Some paddedText\<rparr>]
              else [])\<rparr>\<close>

text \<open>
  A page that shows \<open>Card declined\<close> at every check, behind an element whose
  \<open>isVisible\<close> probe throws at every check.
\<close>

definition throwingProbePage :: env where
  "throwingProbePage =
     happyPage
       \<lparr>faultAt := (\<lambda>s. case s of
            [l, k, si, j] \<Rightarrow>
              if l = 440 \<and> si = 0 \<and> j = 0 then Some ''Target closed'' else None
          | _ \<Rightarrow> None),
        errorElements :=
          (\<lambda>k s. if s = ''.payment-error''
                 then [\<lparr>elVisible = False, elText = None\<rparr>,
                       \<lparr>elVisible = True, elText = Some ''Card declined''\<rparr>]
                 else [])\<rparr>"

text \<open>A page on which the first two checkout strategies time out and the third works.\<close>

definition thirdStrategyPage :: env where
  "thirdStrategyPage =
     happyPage\<lparr>faultAt :=
       (\<lambda>s. if s = [212] \<or> s = [213] then Some ''Timeout 3000ms exceeded.'' else None)\<rparr>"

text \<open>A page on which no checkout strategy works.\<close>

definition noCheckoutButtonPage :: env where
  "noCheckoutButtonPage =
     happyPage\<lparr>faultAt :=
       (\<lambda>s. if s = [212] \<or> s = [213] \<or> s = [214] then Some ''Timeout 3000ms exceeded.''
            else None)\<rparr>"

text \<open>A page on which the address validation dialog never appears.\<close>

definition noValidationPage :: env where
  "noValidationPage =
     happyPage\<lparr>faultAt := (\<lambda>s. if s = [281] then Some ''Timeout 8000ms exceeded.'' else None)\<rparr>"

text \<open>A page whose place-order button is visible and disabled.\<close>

definition disabledButtonPage :: env where
  "disabledButtonPage = happyPage\<lparr>placeEnabled := False\<rparr>"

text \<open>A page whose card field is not reported visible.\<close>

definition hiddenCardPage :: env where
  "hiddenCardPage = happyPage\<lparr>cardVisible := False\<rparr>"

text \<open>The input list \<open>[hidden, visible text, visible text, hidden]\<close> of the specification.\<close>

definition hiddenInput :: frameInput where
  "hiddenInput =
     \<lparr>isVisible = False, isEnabled = True, typeAttr = Some ''hidden'', nameAttr = None, idAttr = None\<rparr>"

definition textInput :: frameInput where
  "textInput =
     \<lparr>isVisible = True, isEnabled = True, typeAttr = Some ''text'', nameAttr = None, idAttr = None\<rparr>"

definition fourInputs :: "frameInput list" where
  "fourInputs = [hiddenInput, textInput, textInput, hiddenInput]"

definition fourInputsPage :: env where
  "fourInputsPage = happyPage\<lparr>allInputs := fourInputs\<rparr>"

text \<open>
  The input that the card-number locator of line 310 resolves to: \<open>.first()\<close> of the
  inputs matching \<open>input[type="text"], input[type="tel"], input:not([type="hidden"])\<close>,
  that is, the first input of the frame whose type is not \<open>hidden\<close>. The index is the one
  the input has in \<open>frame.locator('input').all()\<close> (line 323).
\<close>

fun cardFieldIndex :: "nat \<Rightarrow> frameInput list \<Rightarrow> nat option" where
  "cardFieldIndex i [] = None"
| "cardFieldIndex i (inp # rest) =
     (if typeAttr inp \<noteq> Some ''hidden'' then Some i else cardFieldIndex (Suc i) rest)"

text \<open>The texts a trace types, in order, each with its target.\<close>

definition fills :: "event list \<Rightarrow> (target \<times> string) list" where
  "fills es =
     concat (map (\<lambda>ev. case ev of Did (Fill t x) \<Rightarrow> [(t, x)] | _ \<Rightarrow> []) es)"

text \<open>A buyer with both callbacks set, and the same buyer with none.\<close>

definition buyer :: checkout where
  "buyer =
     \<lparr>productUrl = Some ''https://www.finewineandgoodspirits.com/product/000001234'',
      userInfo =
        \<lparr>firstName = ''Ada'', lastName = ''Byron'', email = ''ada@byron.example'',
         phone = ''2155550100''\<rparr>,
      shippingInfo =
        \<lparr>shipFirstName = ''Ada'', shipLastName = ''Byron'', address = ''520 CHESTNUT ST'',
         city = ''PHILADELPHIA'', zipCode = ''19106''\<rparr>,
      paymentInfo =
        \<lparr>cardholderName = ''ADA BYRON'', cardNumber = ''4000056655665556'', cvv = ''737'',
         expiryDate = ''11/29''\<rparr>,
      headless = True, onComplete = True, onError = True\<rparr>"

definition silentBuyer :: checkout where
  "silentBuyer = buyer\<lparr>onComplete := False, onError := False\<rparr>"

text \<open>The calls of a trace, and among them the terminal callbacks and the release.\<close>

fun callOf :: "event \<Rightarrow> call" where
  "callOf (Did c) = c"
| "callOf (Threw c) = c"

definition isCallback :: "call \<Rightarrow> bool" where
  "isCallback c = (case c of OnComplete r \<Rightarrow> True | OnError r \<Rightarrow> True | _ \<Rightarrow> False)"

definition callbacks :: "event list \<Rightarrow> call list" where
  "callbacks es = filter isCallback (map callOf es)"

definition closes :: "event list \<Rightarrow> call list" where
  "closes es = filter (\<lambda>c. c = Close) (map callOf es)"

text \<open>The target a call types into, if it is a \<open>fill\<close>.\<close>

definition filledTarget :: "call \<Rightarrow> target option" where
  "filledTarget c = (case c of Fill t x \<Rightarrow> Some t | _ \<Rightarrow> None)"

text \<open>Every call of a computation's trace satisfies \<open>Q\<close>.\<close>

definition allCalls :: "(call \<Rightarrow> bool) \<Rightarrow> event list \<times> 'r \<Rightarrow> bool" where
  "allCalls Q m = list_all (\<lambda>ev. Q (callOf ev)) (fst m)"

text \<open>Calls that neither click nor type, and are no callback, screenshot or release.\<close>

definition harmless :: "call \<Rightarrow> bool" where
  "harmless c =
     (case c of
        Goto u \<Rightarrow> True
      | Evaluate s \<Rightarrow> True
      | WaitForSelector s n \<Rightarrow> True
      | WaitFor t s n \<Rightarrow> True
      | WaitForTimeout n \<Rightarrow> True
      | ContentFrame \<Rightarrow> True
      | AllInputs \<Rightarrow> True
      | IsVisible t n \<Rightarrow> True
      | IsEnabled t \<Rightarrow> True
      | GetAttribute t a \<Rightarrow> True
      | _ \<Rightarrow> False)"

text \<open>Calls of the funnel's stages: anything but a callback, the screenshot and the release.\<close>

definition stageCall :: "call \<Rightarrow> bool" where
  "stageCall c = (\<not> isCallback c \<and> c \<noteq> Close \<and> c \<noteq> Screenshot)"

text \<open>
  The shape of a run: its trace with the typed texts, the address and the headless flag
  blanked, and its result.
\<close>

definition shapeCall :: "call \<Rightarrow> call" where
  "shapeCall c =
     (case c of
        Fill t x \<Rightarrow> Fill t []
      | Goto u \<Rightarrow> Goto []
      | Launch h \<Rightarrow> Launch False
      | _ \<Rightarrow> c)"

fun shapeEvent :: "event \<Rightarrow> event" where
  "shapeEvent (Did c) = Did (shapeCall c)"
| "shapeEvent (Threw c) = Threw (shapeCall c)"

definition shape :: "event list \<times> 'r \<Rightarrow> event list \<times> 'r" where
  "shape m = (map shapeEvent (fst m), snd m)"

text \<open>Options that name the product only, so that every other value is a default.\<close>

definition urlOnly :: options where
  "urlOnly =
     \<lparr>props = [''productUrl'' \<mapsto> ''https://www.finewineandgoodspirits.com/product/000001234''],
      optHeadless = True, optOnComplete = True, optOnError = True\<rparr>"

section \<open>Sequencing\<close>

lemma bnd_Inr [simp]: "bnd (es, Inr a) f = (es @ fst (f a), snd (f a))"
  by (simp add: bnd_def split: prod.splits)

lemma bnd_Inl [simp]: "bnd (es, Inl x) f = (es, Inl x)"
  by (simp add: bnd_def)

lemma await_ok: "faultAt e s = None \<Longrightarrow> await e s c = ([Did c], Inr ())"
  by (simp add: await_def)

lemma await_fault: "faultAt e s = Some m \<Longrightarrow> await e s c = ([Threw c], Inl m)"
  by (simp add: await_def)

lemma steps_ok:
  "\<forall>s\<in>set (map fst cs). faultAt e s = None \<Longrightarrow> steps e cs = (map (Did \<circ> snd) cs, Inr ())"
  by (induction cs) (auto simp: await_ok)

lemma swallow_fault: "swallow (es, Inl x) = (es, Inr ())"
  by (simp add: swallow_def tryCatch_def)


section \<open>Strings: a keyword is not white space\<close>

declare checkForErrors.simps [simp del]

lemma startsWith_set: "startsWith s k \<Longrightarrow> set k \<subseteq> set s"
  by (induction s k rule: startsWith.induct) auto

lemma includesStr_set: "includesStr s k \<Longrightarrow> set k \<subseteq> set s"
proof (induction s)
  case Nil
  then show ?case by simp
next
  case (Cons a s)
  then show ?case using startsWith_set [of "a # s" k] by auto
qed

lemma mem_dropWhile: "\<not> P c \<Longrightarrow> c \<in> set xs \<Longrightarrow> c \<in> set (dropWhile P xs)"
  by (induction xs) auto

lemma trim_nonempty: "c \<in> set t \<Longrightarrow> \<not> isSpace c \<Longrightarrow> trim t \<noteq> []"
proof -
  assume c: "c \<in> set t" and ns: "\<not> isSpace c"
  have "c \<in> set (rev (dropWhile isSpace t))"
    using mem_dropWhile [of isSpace c t] ns c by simp
  then have "c \<in> set (dropWhile isSpace (rev (dropWhile isSpace t)))"
    using mem_dropWhile [of isSpace c "rev (dropWhile isSpace t)"] ns by simp
  then have "dropWhile isSpace (rev (dropWhile isSpace t)) \<noteq> []"
    by (cases "dropWhile isSpace (rev (dropWhile isSpace t))") auto
  then show ?thesis
    unfolding trim_def by (simp only: rev_is_Nil_conv not_False_eq_True)
qed

lemma isSpace_lower: "isSpace c \<Longrightarrow> toLowerChar c = c"
  by (auto simp: isSpace_def toLowerChar_def Let_def)

lemma lowered_letter_nonspace:
  "k \<in> set (toLowerCase t) \<Longrightarrow> \<not> isSpace k \<Longrightarrow> \<exists>c\<in>set t. \<not> isSpace c"
  by (auto simp: toLowerCase_def) (metis isSpace_lower)

lemma keyword_trim:
  assumes "includesStr (toLowerCase t) kw" "k \<in> set kw" "\<not> isSpace k"
  shows "trim t \<noteq> []"
proof -
  from assms(1,2) have "k \<in> set (toLowerCase t)"
    using includesStr_set by blast
  with assms(3) obtain c where "c \<in> set t" "\<not> isSpace c"
    using lowered_letter_nonspace by blast
  then show ?thesis by (rule trim_nonempty)
qed

section \<open>The poller\<close>

lemma isErrorText_keywords:
  "isErrorText t \<longleftrightarrow> t \<noteq> [] \<and> list_ex (includesStr (toLowerCase t)) errorKeywords"
proof -
  have "trim t \<noteq> []" if "includesStr (toLowerCase t) kw" "kw \<in> set errorKeywords" for kw
  proof -
    from that(2) have "kw \<noteq> [] \<and> \<not> isSpace (hd kw)"
      by (auto simp: errorKeywords_def isSpace_def)
    then have "hd kw \<in> set kw" "\<not> isSpace (hd kw)"
      by simp_all
    with that(1) show ?thesis by (rule keyword_trim)
  qed
  then show ?thesis
    by (auto simp: isErrorText_def list_ex_iff errorKeywords_def)
qed

lemma visibleError_code:
  "visibleError el \<longleftrightarrow> elVisible el \<and> (\<exists>t. elText el = Some t \<and> isErrorText t)"
  by (auto simp: visibleError_def isErrorText_keywords split: option.splits)

lemma scanElements_Some:
  "scanElements e k si j els = Inr (Some m) \<Longrightarrow>
   \<exists>el\<in>set els. visibleError el \<and> map_option trim (elText el) = Some m"
  by (induction els arbitrary: j) (auto simp: visibleError_code split: option.splits if_splits)

lemma scanSelectors_Some:
  "scanSelectors e k si sels = Inr (Some m) \<Longrightarrow>
   \<exists>sel\<in>set sels. \<exists>el\<in>set (errorElements e k sel). visibleError el \<and> map_option trim (elText el) = Some m"
proof (induction sels arbitrary: si)
  case Nil
  then show ?case by simp
next
  case (Cons sel sels)
  show ?case
  proof (cases "scanElements e k si 0 (errorElements e k sel) = Inr (Some m)")
    case True
    from scanElements_Some [OF True] show ?thesis by auto
  next
    case False
    with Cons.prems have "scanSelectors e k (Suc si) sels = Inr (Some m)"
      by (auto split: option.splits sum.splits)
    from Cons.IH [OF this] show ?thesis by auto
  qed
qed

lemma scanElements_find:
  "\<forall>j. faultAt e [440, k, si, j] = None \<and> faultAt e [441, k, si, j] = None \<Longrightarrow>
   scanElements e k si j els =
     Inr (Option.bind (find visibleError els) (\<lambda>el. map_option trim (elText el)))"
  by (induction els arbitrary: j) (auto simp: visibleError_code split: option.splits)

lemma find_append_eq:
  "find P (xs @ ys) = (case find P xs of None \<Rightarrow> find P ys | Some x \<Rightarrow> Some x)"
  by (induction xs) auto

lemma scanSelectors_find:
  assumes "\<forall>si. faultAt e [438, k, si] = None"
    and "\<forall>si j. faultAt e [440, k, si, j] = None \<and> faultAt e [441, k, si, j] = None"
  shows "scanSelectors e k si sels =
     Inr (Option.bind (find visibleError (concat (map (errorElements e k) sels)))
            (\<lambda>el. map_option trim (elText el)))"
proof (induction sels arbitrary: si)
  case Nil
  show ?case by simp
next
  case (Cons sel sels)
  have el: "scanElements e k si 0 (errorElements e k sel) =
     Inr (Option.bind (find visibleError (errorElements e k sel)) (\<lambda>el. map_option trim (elText el)))"
    using assms(2) by (intro scanElements_find) simp
  show ?case
  proof (cases "find visibleError (errorElements e k sel)")
    case None
    then show ?thesis
      using assms(1) el Cons [of "Suc si"] by (simp add: find_append_eq)
  next
    case (Some x)
    then obtain t where "elText x = Some t"
      using find_Some_iff [of visibleError "errorElements e k sel" x]
      by (auto simp: visibleError_code)
    with Some show ?thesis
      using assms(1) el by (simp add: find_append_eq)
  qed
qed

lemma checkForErrors_none:
  "\<not> found \<Longrightarrow> checkCount \<le> maxChecks \<Longrightarrow>
   \<forall>k m. checkCount < k \<and> k \<le> maxChecks \<longrightarrow> scanSelectors e k 0 errorSelectors \<noteq> Inr (Some m) \<Longrightarrow>
   checkForErrors e found msg checkCount = \<lparr>errorFound = False, errorMessage = msg, timing = maxChecks * 200\<rparr>"
proof (induction e found msg checkCount rule: checkForErrors.induct)
  case (1 e found msg checkCount)
  show ?case
  proof (cases "checkCount \<ge> maxChecks")
    case True
    with 1 show ?thesis by (simp add: checkForErrors.simps)
  next
    case False
    then have lt: "checkCount < maxChecks" by simp
    have nm: "\<And>m. scanSelectors e (checkCount + 1) 0 errorSelectors \<noteq> Inr (Some m)"
      using 1(5) lt by simp
    have rec: "checkForErrors e found msg (checkCount + 1) =
        \<lparr>errorFound = False, errorMessage = msg, timing = maxChecks * 200\<rparr>"
    proof (cases "scanSelectors e (checkCount + 1) 0 errorSelectors")
      case (Inl x)
      show ?thesis
        using 1(1) [OF _ Inl] 1(3,5) False lt by simp
    next
      case (Inr r)
      with nm have rn: "r = None" by (cases r) auto
      show ?thesis
        using 1(2) [OF _ Inr rn] 1(3,5) False lt by simp
    qed
    show ?thesis
      using nm rec False 1(3)
      by (subst checkForErrors.simps) (auto split: sum.splits option.splits)
  qed
qed

lemma checkForErrors_first:
  "\<not> found \<Longrightarrow> checkCount < k \<Longrightarrow> k \<le> maxChecks \<Longrightarrow>
   scanSelectors e k 0 errorSelectors = Inr (Some m) \<Longrightarrow>
   \<forall>k' m'. checkCount < k' \<and> k' < k \<longrightarrow> scanSelectors e k' 0 errorSelectors \<noteq> Inr (Some m') \<Longrightarrow>
   checkForErrors e found msg checkCount = \<lparr>errorFound = True, errorMessage = m, timing = k * 200\<rparr>"
proof (induction e found msg checkCount rule: checkForErrors.induct)
  case (1 e found msg checkCount)
  have lt: "\<not> (found \<or> maxChecks \<le> checkCount)"
    using 1(3,4,5) by simp
  show ?case
  proof (cases "checkCount + 1 = k")
    case True
    with 1(6) lt show ?thesis
      by (subst checkForErrors.simps) simp
  next
    case False
    then have lt2: "checkCount + 1 < k" using 1(4) by simp
    have nm: "\<And>m'. scanSelectors e (checkCount + 1) 0 errorSelectors \<noteq> Inr (Some m')"
      using 1(7) lt2 by simp
    have rec: "checkForErrors e found msg (checkCount + 1) =
        \<lparr>errorFound = True, errorMessage = m, timing = k * 200\<rparr>"
    proof (cases "scanSelectors e (checkCount + 1) 0 errorSelectors")
      case (Inl x)
      show ?thesis
        using 1(1) [OF lt Inl 1(3) lt2 1(5) 1(6)] 1(7) by simp
    next
      case (Inr r)
      with nm have rn: "r = None" by (cases r) auto
      show ?thesis
        using 1(2) [OF lt Inr rn 1(3) lt2 1(5) 1(6)] 1(7) by simp
    qed
    show ?thesis
      using nm rec lt
      by (subst checkForErrors.simps) (auto split: sum.splits option.splits)
  qed
qed

lemma checkForErrors_timing:
  "\<not> found \<Longrightarrow> checkCount \<le> maxChecks \<Longrightarrow>
   \<exists>n. checkCount \<le> n \<and> n \<le> maxChecks \<and> timing (checkForErrors e found msg checkCount) = n * 200"
proof (induction e found msg checkCount rule: checkForErrors.induct)
  case (1 e found msg checkCount)
  show ?case
  proof (cases "checkCount \<ge> maxChecks")
    case True
    with 1(3,4) show ?thesis by (subst checkForErrors.simps) auto
  next
    case False
    then have lt: "\<not> (found \<or> maxChecks \<le> checkCount)" using 1(3) by simp
    have le: "checkCount + 1 \<le> maxChecks" using False by simp
    show ?thesis
    proof (cases "scanSelectors e (checkCount + 1) 0 errorSelectors")
      case (Inl x)
      from 1(1) [OF lt Inl 1(3) le] obtain n where
        "checkCount + 1 \<le> n" "n \<le> maxChecks" "timing (checkForErrors e found msg (checkCount + 1)) = n * 200"
        by blast
      then show ?thesis
        using lt Inl by (subst checkForErrors.simps) (auto intro!: exI [of _ n])
    next
      case (Inr r)
      show ?thesis
      proof (cases r)
        case None
        from 1(2) [OF lt Inr None 1(3) le] obtain n where
          "checkCount + 1 \<le> n" "n \<le> maxChecks" "timing (checkForErrors e found msg (checkCount + 1)) = n * 200"
          by blast
        then show ?thesis
          using lt Inr None by (subst checkForErrors.simps) (auto intro!: exI [of _ n])
      next
        case (Some m)
        then show ?thesis
          using lt Inr le by (subst checkForErrors.simps) (auto intro!: exI [of _ "checkCount + 1"])
      qed
    qed
  qed
qed

lemma checkForErrors_found:
  "\<not> found \<Longrightarrow> errorFound (checkForErrors e found msg checkCount) \<Longrightarrow>
   \<exists>k m. checkCount < k \<and> k \<le> maxChecks \<and> scanSelectors e k 0 errorSelectors = Inr (Some m) \<and>
     checkForErrors e found msg checkCount = \<lparr>errorFound = True, errorMessage = m, timing = k * 200\<rparr>"
proof (induction e found msg checkCount rule: checkForErrors.induct)
  case (1 e found msg checkCount)
  have lt: "\<not> (found \<or> maxChecks \<le> checkCount)"
    using 1(3,4) by (subst (asm) checkForErrors.simps) (auto split: if_splits)
  show ?case
  proof (cases "scanSelectors e (checkCount + 1) 0 errorSelectors")
    case (Inl x)
    have eq: "checkForErrors e found msg checkCount = checkForErrors e found msg (checkCount + 1)"
      using lt Inl by (subst checkForErrors.simps) simp
    from 1(1) [OF lt Inl 1(3)] 1(4) eq obtain k m where
      "checkCount + 1 < k" "k \<le> maxChecks" "scanSelectors e k 0 errorSelectors = Inr (Some m)"
      "checkForErrors e found msg (checkCount + 1) = \<lparr>errorFound = True, errorMessage = m, timing = k * 200\<rparr>"
      by auto
    with eq show ?thesis
      by (intro exI [of _ k] exI [of _ m]) simp
  next
    case (Inr r)
    show ?thesis
    proof (cases r)
      case None
      have eq: "checkForErrors e found msg checkCount = checkForErrors e found msg (checkCount + 1)"
        using lt Inr None by (subst checkForErrors.simps) simp
      from 1(2) [OF lt Inr None 1(3)] 1(4) eq obtain k m where
        "checkCount + 1 < k" "k \<le> maxChecks" "scanSelectors e k 0 errorSelectors = Inr (Some m)"
        "checkForErrors e found msg (checkCount + 1) = \<lparr>errorFound = True, errorMessage = m, timing = k * 200\<rparr>"
        by auto
      with eq show ?thesis
        by (intro exI [of _ k] exI [of _ m]) simp
    next
      case (Some m)
      have "checkForErrors e found msg checkCount =
          \<lparr>errorFound = True, errorMessage = m, timing = (checkCount + 1) * 200\<rparr>"
        using lt Inr Some by (subst checkForErrors.simps) simp
      with lt Inr Some show ?thesis
        by (intro exI [of _ "checkCount + 1"] exI [of _ m]) simp
    qed
  qed
qed

text \<open>
  Claim C4. The poller always terminates: \<open>checkForErrors\<close> is a total function, its
  number of checks \<open>n\<close> is at most 50 and the reported timing is \<open>n * 200\<close> ms; when no
  selector shows a visible error text at any of the 50 checks, it resolves with
  \<open>errorFound = false\<close>, an empty message and the full horizon of 10000 ms.
\<close>

theorem monitorPaymentErrors_bounded:
  "(\<exists>n\<le>50. timing (monitorPaymentErrors e) = n * 200) \<and>
   ((\<forall>k sel el. 1 \<le> k \<and> k \<le> 50 \<and> sel \<in> set errorSelectors \<and> el \<in> set (errorElements e k sel)
        \<longrightarrow> \<not> visibleError el) \<longrightarrow>
    monitorPaymentErrors e = \<lparr>errorFound = False, errorMessage = [], timing = 10000\<rparr>)"
proof (intro conjI impI)
  show "\<exists>n\<le>50. timing (monitorPaymentErrors e) = n * 200"
    using checkForErrors_timing [of False 0 e "[]"]
    by (auto simp: monitorPaymentErrors_def maxChecks_def)
next
  assume quiet: "\<forall>k sel el. 1 \<le> k \<and> k \<le> 50 \<and> sel \<in> set errorSelectors \<and> el \<in> set (errorElements e k sel)
        \<longrightarrow> \<not> visibleError el"
  have "\<forall>k m. 0 < k \<and> k \<le> maxChecks \<longrightarrow> scanSelectors e k 0 errorSelectors \<noteq> Inr (Some m)"
  proof (intro allI impI notI)
    fix k m
    assume k: "0 < k \<and> k \<le> maxChecks" and "scanSelectors e k 0 errorSelectors = Inr (Some m)"
    from scanSelectors_Some [OF this(2)] obtain sel el where
      "sel \<in> set errorSelectors" "el \<in> set (errorElements e k sel)" "visibleError el"
      by blast
    moreover have "1 \<le> k \<and> k \<le> 50"
      using k by (simp add: maxChecks_def)
    ultimately show False
      using quiet by blast
  qed
  then show "monitorPaymentErrors e = \<lparr>errorFound = False, errorMessage = [], timing = 10000\<rparr>"
    using checkForErrors_none [of False 0 e "[]"]
    by (simp add: monitorPaymentErrors_def maxChecks_def)
qed

theorem monitorPaymentErrors_bounded_witness:
  "errorElements happyPage 1 ''.payment-error'' = [] \<and>
   monitorPaymentErrors happyPage = \<lparr>errorFound = False, errorMessage = [], timing = 10000\<rparr>"
proof -
  have none: "errorElements happyPage 1 ''.payment-error'' = []"
    by (simp add: happyPage_def)
  have h: "\<forall>k sel el. 1 \<le> k \<and> k \<le> 50 \<and> sel \<in> set errorSelectors \<and> el \<in> set (errorElements happyPage k sel)
        \<longrightarrow> \<not> visibleError el"
    by (simp add: happyPage_def)
  show ?thesis
    using h none monitorPaymentErrors_bounded [of happyPage] by blast
qed

lemma monitor_first_match_aux:
  "(errorFound (monitorPaymentErrors e) \<longrightarrow>
      (\<exists>k sel el t. 1 \<le> k \<and> k \<le> 50 \<and> sel \<in> set errorSelectors \<and>
         el \<in> set (errorElements e k sel) \<and> visibleError el \<and> elText el = Some t \<and>
         monitorPaymentErrors e = \<lparr>errorFound = True, errorMessage = trim t, timing = k * 200\<rparr>)) \<and>
   ((\<forall>k si. faultAt e [438, k, si] = None) \<and>
    (\<forall>k si j. faultAt e [440, k, si, j] = None \<and> faultAt e [441, k, si, j] = None) \<longrightarrow>
      (errorFound (monitorPaymentErrors e) \<longleftrightarrow>
        (\<exists>k sel el. 1 \<le> k \<and> k \<le> 50 \<and> sel \<in> set errorSelectors \<and>
           el \<in> set (errorElements e k sel) \<and> visibleError el)) \<and>
      (\<forall>k el t. 1 \<le> k \<and> k \<le> 50 \<and>
         (\<forall>k'. 1 \<le> k' \<and> k' < k \<longrightarrow> find visibleError (scanOrder e k') = None) \<and>
         find visibleError (scanOrder e k) = Some el \<and> elText el = Some t \<longrightarrow>
         monitorPaymentErrors e = \<lparr>errorFound = True, errorMessage = trim t, timing = k * 200\<rparr>))"
proof (intro conjI impI)
  assume "errorFound (monitorPaymentErrors e)"
  then obtain k m where k: "0 < k" "k \<le> maxChecks"
    and scan: "scanSelectors e k 0 errorSelectors = Inr (Some m)"
    and res: "monitorPaymentErrors e = \<lparr>errorFound = True, errorMessage = m, timing = k * 200\<rparr>"
    unfolding monitorPaymentErrors_def
    using checkForErrors_found [of False e "[]" 0] by auto
  from scanSelectors_Some [OF scan] obtain sel el where
    el: "sel \<in> set errorSelectors" "el \<in> set (errorElements e k sel)" "visibleError el"
      "map_option trim (elText el) = Some m"
    by blast
  then obtain t where t: "elText el = Some t" "m = trim t"
    by (cases "elText el") auto
  show "\<exists>k sel el t. 1 \<le> k \<and> k \<le> 50 \<and> sel \<in> set errorSelectors \<and>
         el \<in> set (errorElements e k sel) \<and> visibleError el \<and> elText el = Some t \<and>
         monitorPaymentErrors e = \<lparr>errorFound = True, errorMessage = trim t, timing = k * 200\<rparr>"
    using k el(1-3) t res
    by (intro exI [of _ k] exI [of _ sel] exI [of _ el] exI [of _ t]) (simp add: maxChecks_def)
next
  assume a: "(\<forall>k si. faultAt e [438, k, si] = None) \<and>
    (\<forall>k si j. faultAt e [440, k, si, j] = None \<and> faultAt e [441, k, si, j] = None)"
  have scan: "scanSelectors e k 0 errorSelectors =
      Inr (Option.bind (find visibleError (scanOrder e k)) (\<lambda>el. map_option trim (elText el)))" for k
    unfolding scanOrder_def using a by (intro scanSelectors_find) simp_all
  have first: "monitorPaymentErrors e = \<lparr>errorFound = True, errorMessage = trim t, timing = k * 200\<rparr>"
    if "1 \<le> k" "k \<le> 50" "\<forall>k'. 1 \<le> k' \<and> k' < k \<longrightarrow> find visibleError (scanOrder e k') = None"
      "find visibleError (scanOrder e k) = Some el" "elText el = Some t" for k el t
    unfolding monitorPaymentErrors_def
    using that by (intro checkForErrors_first) (simp_all add: scan maxChecks_def)
  have none: "monitorPaymentErrors e = \<lparr>errorFound = False, errorMessage = [], timing = maxChecks * 200\<rparr>"
    if "\<forall>k. 1 \<le> k \<and> k \<le> 50 \<longrightarrow> find visibleError (scanOrder e k) = None"
    unfolding monitorPaymentErrors_def
    using that by (intro checkForErrors_none) (simp_all add: scan maxChecks_def)
  have mem: "find visibleError (scanOrder e k) = None \<longleftrightarrow>
      \<not> (\<exists>sel el. sel \<in> set errorSelectors \<and> el \<in> set (errorElements e k sel) \<and> visibleError el)" for k
    by (auto simp: find_None_iff scanOrder_def)
  show "errorFound (monitorPaymentErrors e) \<longleftrightarrow>
        (\<exists>k sel el. 1 \<le> k \<and> k \<le> 50 \<and> sel \<in> set errorSelectors \<and>
           el \<in> set (errorElements e k sel) \<and> visibleError el)" (is "?L \<longleftrightarrow> ?R")
  proof
    assume ?L
    show ?R
    proof (rule ccontr)
      assume "\<not> ?R"
      then have "\<forall>k. 1 \<le> k \<and> k \<le> 50 \<longrightarrow> find visibleError (scanOrder e k) = None"
        unfolding mem by blast
      from none [OF this] \<open>?L\<close> show False by simp
    qed
  next
    assume ?R
    then have ex: "\<exists>k. 1 \<le> k \<and> k \<le> 50 \<and> find visibleError (scanOrder e k) \<noteq> None"
      unfolding mem by blast
    define k where "k = (LEAST k. 1 \<le> k \<and> k \<le> 50 \<and> find visibleError (scanOrder e k) \<noteq> None)"
    have k: "1 \<le> k \<and> k \<le> 50 \<and> find visibleError (scanOrder e k) \<noteq> None"
      unfolding k_def using ex by (rule LeastI_ex)
    have least: "\<forall>k'. 1 \<le> k' \<and> k' < k \<longrightarrow> find visibleError (scanOrder e k') = None"
    proof (intro allI impI)
      fix k' assume k': "1 \<le> k' \<and> k' < k"
      show "find visibleError (scanOrder e k') = None"
      proof (rule ccontr)
        assume "find visibleError (scanOrder e k') \<noteq> None"
        with k' k have "1 \<le> k' \<and> k' \<le> 50 \<and> find visibleError (scanOrder e k') \<noteq> None" by simp
        then have "k \<le> k'" unfolding k_def by (rule Least_le)
        with k' show False by simp
      qed
    qed
    from k obtain el where el: "find visibleError (scanOrder e k) = Some el" by auto
    then have "visibleError el" by (auto simp: find_Some_iff)
    then obtain t where "elText el = Some t" by (auto simp: visibleError_code)
    from first [OF _ _ least el this] k show ?L by simp
  qed
  show "\<forall>k el t. 1 \<le> k \<and> k \<le> 50 \<and>
         (\<forall>k'. 1 \<le> k' \<and> k' < k \<longrightarrow> find visibleError (scanOrder e k') = None) \<and>
         find visibleError (scanOrder e k) = Some el \<and> elText el = Some t \<longrightarrow>
         monitorPaymentErrors e = \<lparr>errorFound = True, errorMessage = trim t, timing = k * 200\<rparr>"
    using first by blast
qed

lemma monitor_iff_scan:
  "errorFound (monitorPaymentErrors e) \<longleftrightarrow>
   (\<exists>k m. 1 \<le> k \<and> k \<le> 50 \<and> scanSelectors e k 0 errorSelectors = Inr (Some m))"
  (is "?L \<longleftrightarrow> ?R")
proof
  assume ?L
  then obtain k m where "0 < k" "k \<le> maxChecks"
      "scanSelectors e k 0 errorSelectors = Inr (Some m)"
    unfolding monitorPaymentErrors_def
    using checkForErrors_found [of False e "[]" 0] by auto
  then have "1 \<le> k \<and> k \<le> 50 \<and> scanSelectors e k 0 errorSelectors = Inr (Some m)"
    by (simp add: maxChecks_def)
  then show ?R by blast
next
  assume ?R
  then have ex: "\<exists>k. 1 \<le> k \<and> k \<le> 50 \<and> (\<exists>m. scanSelectors e k 0 errorSelectors = Inr (Some m))"
    by blast
  define k where
    "k = (LEAST k. 1 \<le> k \<and> k \<le> 50 \<and> (\<exists>m. scanSelectors e k 0 errorSelectors = Inr (Some m)))"
  have k: "1 \<le> k \<and> k \<le> 50 \<and> (\<exists>m. scanSelectors e k 0 errorSelectors = Inr (Some m))"
    unfolding k_def using ex by (rule LeastI_ex)
  then obtain m where m: "scanSelectors e k 0 errorSelectors = Inr (Some m)"
    by blast
  have least: "\<forall>k' m'. 0 < k' \<and> k' < k \<longrightarrow> scanSelectors e k' 0 errorSelectors \<noteq> Inr (Some m')"
  proof (intro allI impI notI)
    fix k' m'
    assume k': "0 < k' \<and> k' < k" and "scanSelectors e k' 0 errorSelectors = Inr (Some m')"
    with k have "1 \<le> k' \<and> k' \<le> 50 \<and> (\<exists>m. scanSelectors e k' 0 errorSelectors = Inr (Some m))"
      by auto
    then have "k \<le> k'" unfolding k_def by (rule Least_le)
    with k' show False by simp
  qed
  have "checkForErrors e False [] 0 = \<lparr>errorFound = True, errorMessage = m, timing = k * 200\<rparr>"
    using k m least by (intro checkForErrors_first) (simp_all add: maxChecks_def)
  then show ?L
    by (simp add: monitorPaymentErrors_def)
qed

text \<open>
  Claim C5, as amended. The poller reports an error exactly when one of its 50 checks
  reaches a match before any probe of that check throws. Whenever it reports one, some
  element matched by one of the four selectors was visible at that check with a
  non-empty text containing a keyword, and the message is that text, trimmed. On a page
  whose probes do not throw, it reports an error exactly when such an element exists at
  one of the 50 checks, and the first such element in scanning order at the first such
  check stops the poll and gives the message. A probe that throws ends its check
  (lines 459-461): the elements behind it are not examined at that check.
\<close>

theorem monitorPaymentErrors_first_match:
  "(errorFound (monitorPaymentErrors e) \<longleftrightarrow>
      (\<exists>k m. 1 \<le> k \<and> k \<le> 50 \<and> scanSelectors e k 0 errorSelectors = Inr (Some m))) \<and>
   (errorFound (monitorPaymentErrors e) \<longrightarrow>
      (\<exists>k sel el t. 1 \<le> k \<and> k \<le> 50 \<and> sel \<in> set errorSelectors \<and>
         el \<in> set (errorElements e k sel) \<and> visibleError el \<and> elText el = Some t \<and>
         monitorPaymentErrors e = \<lparr>errorFound = True, errorMessage = trim t, timing = k * 200\<rparr>)) \<and>
   ((\<forall>k si. faultAt e [438, k, si] = None) \<and>
    (\<forall>k si j. faultAt e [440, k, si, j] = None \<and> faultAt e [441, k, si, j] = None) \<longrightarrow>
      (errorFound (monitorPaymentErrors e) \<longleftrightarrow>
        (\<exists>k sel el. 1 \<le> k \<and> k \<le> 50 \<and> sel \<in> set errorSelectors \<and>
           el \<in> set (errorElements e k sel) \<and> visibleError el)) \<and>
      (\<forall>k el t. 1 \<le> k \<and> k \<le> 50 \<and>
         (\<forall>k'. 1 \<le> k' \<and> k' < k \<longrightarrow> find visibleError (scanOrder e k') = None) \<and>
         find visibleError (scanOrder e k) = Some el \<and> elText el = Some t \<longrightarrow>
         monitorPaymentErrors e = \<lparr>errorFound = True, errorMessage = trim t, timing = k * 200\<rparr>))"
  using monitor_iff_scan [of e] monitor_first_match_aux [of e]
  by blast

theorem monitorPaymentErrors_first_match_witness:
  \<open>visibleError \<lparr>elVisible = True, elText = Some paddedText\<rparr> \<and>
   isErrorText ''Error'' \<and>
   monitorPaymentErrors shoutingPage =
     \<lparr>errorFound = True, errorMessage = ''CARD DECLINED'', timing = 600\<rparr>\<close>
proof -
  have f: "(\<forall>k si. faultAt shoutingPage [438, k, si] = None) \<and>
     (\<forall>k si j. faultAt shoutingPage [440, k, si, j] = None \<and> faultAt shoutingPage [441, k, si, j] = None)"
    by (simp add: shoutingPage_def happyPage_def)
  let ?hid = "\<lparr>elVisible = False, elText = Some ''Error''\<rparr>"
  let ?el = "\<lparr>elVisible = True, elText = Some paddedText\<rparr>"
  have v: "visibleError ?el"
    by code_simp
  have h: "\<not> visibleError ?hid"
    by (simp add: visibleError_def)
  have t: "isErrorText ''Error''"
    by code_simp
  have before: "\<forall>k'. 1 \<le> k' \<and> k' < 3 \<longrightarrow> find visibleError (scanOrder shoutingPage k') = None"
    by (simp add: scanOrder_def shoutingPage_def happyPage_def errorSelectors_def)
  have at: "find visibleError (scanOrder shoutingPage 3) = Some ?el"
    using v h by (simp add: scanOrder_def shoutingPage_def happyPage_def errorSelectors_def)
  have tr: "trim paddedText = ''CARD DECLINED''"
    by (simp add: trim_def isSpace_def paddedText_def)
  have prem: "1 \<le> (3::nat) \<and> (3::nat) \<le> 50 \<and>
      (\<forall>k'. 1 \<le> k' \<and> k' < 3 \<longrightarrow> find visibleError (scanOrder shoutingPage k') = None) \<and>
      find visibleError (scanOrder shoutingPage 3) = Some ?el \<and> elText ?el = Some paddedText"
    using before at by simp
  have "monitorPaymentErrors shoutingPage =
     \<lparr>errorFound = True, errorMessage = trim paddedText, timing = 3 * 200\<rparr>"
    using monitorPaymentErrors_first_match [of shoutingPage] f prem by blast
  with v t show ?thesis by (simp add: tr)
qed

text \<open>
  A page on which a visible \<open>Card declined\<close> is matched by the first selector at every
  check and is never reported, because the probe of the element before it throws at
  every check: the poller runs out after 50 checks with \<open>errorFound = false\<close>.
\<close>

theorem monitorPaymentErrors_throwing_probe:
  "visibleError \<lparr>elVisible = True, elText = Some ''Card declined''\<rparr> \<and>
   errorElements throwingProbePage 1 ''.payment-error'' ! 1 =
     \<lparr>elVisible = True, elText = Some ''Card declined''\<rparr> \<and>
   scanSelectors throwingProbePage 1 0 errorSelectors = Inl ''Target closed'' \<and>
   monitorPaymentErrors throwingProbePage =
     \<lparr>errorFound = False, errorMessage = [], timing = 10000\<rparr>"
proof -
  have v: "visibleError \<lparr>elVisible = True, elText = Some ''Card declined''\<rparr>"
    by (simp add: visibleError_def errorKeywords_def toLowerCase_def toLowerChar_def)
  have el: "errorElements throwingProbePage 1 ''.payment-error'' ! 1 =
     \<lparr>elVisible = True, elText = Some ''Card declined''\<rparr>"
    by (simp add: throwingProbePage_def happyPage_def)
  have scan: "scanSelectors throwingProbePage k 0 errorSelectors = Inl ''Target closed''" for k
    by (simp add: throwingProbePage_def happyPage_def errorSelectors_def)
  have "checkForErrors throwingProbePage False [] 0 =
      \<lparr>errorFound = False, errorMessage = [], timing = maxChecks * 200\<rparr>"
    by (intro checkForErrors_none) (simp_all add: scan)
  with v el scan show ?thesis
    by (simp add: monitorPaymentErrors_def maxChecks_def)
qed

section \<open>navigateToCheckout\<close>

lemma tryStrategies_first:
  "k < length ss \<Longrightarrow> \<forall>j<k. faultAt e (fst (ss ! j)) \<noteq> None \<Longrightarrow> faultAt e (fst (ss ! k)) = None \<Longrightarrow>
   tryStrategies e ss = (map (Threw \<circ> snd) (take k ss) @ [Did (snd (ss ! k))], True)"
proof (induction ss arbitrary: k)
  case Nil
  then show ?case by simp
next
  case (Cons sc ss)
  obtain s c where sc: "sc = (s, c)" by (cases sc)
  show ?case
  proof (cases k)
    case 0
    with Cons.prems sc show ?thesis by (simp add: await_ok)
  next
    case (Suc k')
    from Cons.prems Suc sc obtain m where m: "faultAt e s = Some m" by fastforce
    have "tryStrategies e ss = (map (Threw \<circ> snd) (take k' ss) @ [Did (snd (ss ! k'))], True)"
      using Cons.prems Suc by (intro Cons.IH) auto
    with Suc sc m show ?thesis by (simp add: await_fault)
  qed
qed

lemma tryStrategies_none:
  "\<forall>j<length ss. faultAt e (fst (ss ! j)) \<noteq> None \<Longrightarrow>
   tryStrategies e ss = (map (Threw \<circ> snd) ss, False)"
proof (induction ss)
  case Nil
  then show ?case by simp
next
  case (Cons sc ss)
  obtain s c where sc: "sc = (s, c)" by (cases sc)
  from Cons.prems sc obtain m where m: "faultAt e s = Some m" by fastforce
  have "tryStrategies e ss = (map (Threw \<circ> snd) ss, False)"
    using Cons.prems by (intro Cons.IH) auto
  with sc m show ?case by (simp add: await_fault)
qed

text \<open>
  Claim C6. The strategies are tried in declared order. Once the cart is open, if the
  strategies before the k-th throw and the k-th resolves, the loop ends with
  \<open>checkoutClicked = true\<close> and the trace shows the k attempts and nothing of the later
  strategies; if all throw, \<open>navigateToCheckout\<close> throws
  \<open>Could not find checkout button\<close>.
\<close>

theorem navigateToCheckout_strategy_order:
  assumes "faultAt e [207] = None" and "faultAt e [208] = None" and "faultAt e [231] = None"
  shows
    "(\<forall>k<length strategies.
        (\<forall>j<k. faultAt e (fst (strategies ! j)) \<noteq> None) \<and> faultAt e (fst (strategies ! k)) = None \<longrightarrow>
        tryStrategies e strategies =
          (map (Threw \<circ> snd) (take k strategies) @ [Did (snd (strategies ! k))], True) \<and>
        navigateToCheckout e =
          ([Did (Click (Sel ''button[aria-label=\"Cart\"]'')), Did (WaitForTimeout 2000)] @
           map (Threw \<circ> snd) (take k strategies) @
           [Did (snd (strategies ! k)), Did (WaitForTimeout 2000)], Inr ())) \<and>
     ((\<forall>j<length strategies. faultAt e (fst (strategies ! j)) \<noteq> None) \<longrightarrow>
        navigateToCheckout e =
          ([Did (Click (Sel ''button[aria-label=\"Cart\"]'')), Did (WaitForTimeout 2000)] @
           map (Threw \<circ> snd) strategies, Inl ''Could not find checkout button''))"
proof (intro conjI allI impI)
  fix k
  assume k: "k < length strategies"
    and f: "(\<forall>j<k. faultAt e (fst (strategies ! j)) \<noteq> None) \<and> faultAt e (fst (strategies ! k)) = None"
  show t: "tryStrategies e strategies =
      (map (Threw \<circ> snd) (take k strategies) @ [Did (snd (strategies ! k))], True)"
    using k f by (intro tryStrategies_first) simp_all
  show "navigateToCheckout e =
          ([Did (Click (Sel ''button[aria-label=\"Cart\"]'')), Did (WaitForTimeout 2000)] @
           map (Threw \<circ> snd) (take k strategies) @
           [Did (snd (strategies ! k)), Did (WaitForTimeout 2000)], Inr ())"
    using assms by (simp add: navigateToCheckout_def t await_ok)
next
  assume "\<forall>j<length strategies. faultAt e (fst (strategies ! j)) \<noteq> None"
  then have "tryStrategies e strategies = (map (Threw \<circ> snd) strategies, False)"
    by (rule tryStrategies_none)
  then show "navigateToCheckout e =
          ([Did (Click (Sel ''button[aria-label=\"Cart\"]'')), Did (WaitForTimeout 2000)] @
           map (Threw \<circ> snd) strategies, Inl ''Could not find checkout button'')"
    using assms by (simp add: navigateToCheckout_def await_ok)
qed


theorem navigateToCheckout_strategy_order_witness:
  \<open>navigateToCheckout thirdStrategyPage =
     ([Did (Click (Sel ''button[aria-label="Cart"]'')), Did (WaitForTimeout 2000),
       Threw (Click (Sel ''button.cart-link'')),
       Threw (Click (Sel ''button:has-text("Checkout")'')),
       Did (Click (Sel ''a:has-text("Checkout")'')),
       Did (WaitForTimeout 2000)], Inr ()) \<and>
   navigateToCheckout noCheckoutButtonPage =
     ([Did (Click (Sel ''button[aria-label="Cart"]'')), Did (WaitForTimeout 2000),
       Threw (Click (Sel ''button.cart-link'')),
       Threw (Click (Sel ''button:has-text("Checkout")'')),
       Threw (Click (Sel ''a:has-text("Checkout")''))], Inl ''Could not find checkout button'')\<close>
proof -
  have a: "faultAt thirdStrategyPage [207] = None" "faultAt thirdStrategyPage [208] = None"
    "faultAt thirdStrategyPage [231] = None"
    by (simp_all add: thirdStrategyPage_def happyPage_def)
  have b: "faultAt noCheckoutButtonPage [207] = None" "faultAt noCheckoutButtonPage [208] = None"
    "faultAt noCheckoutButtonPage [231] = None"
    by (simp_all add: noCheckoutButtonPage_def happyPage_def)
  have k: "(2::nat) < length strategies"
    by (simp add: strategies_def)
  have f: "(\<forall>j<2. faultAt thirdStrategyPage (fst (strategies ! j)) \<noteq> None) \<and>
      faultAt thirdStrategyPage (fst (strategies ! 2)) = None"
    by (simp add: strategies_def thirdStrategyPage_def happyPage_def less_Suc_eq numeral_2_eq_2)
  have g: "\<forall>j<length strategies. faultAt noCheckoutButtonPage (fst (strategies ! j)) \<noteq> None"
    by (simp add: strategies_def noCheckoutButtonPage_def happyPage_def less_Suc_eq numeral_3_eq_3)
  have 1: "navigateToCheckout thirdStrategyPage =
       ([Did (Click (Sel ''button[aria-label=\"Cart\"]'')), Did (WaitForTimeout 2000)] @
           map (Threw \<circ> snd) (take 2 strategies) @
           [Did (snd (strategies ! 2)), Did (WaitForTimeout 2000)], Inr ())"
    using navigateToCheckout_strategy_order [OF a] k f by blast
  have 2: "navigateToCheckout noCheckoutButtonPage =
          ([Did (Click (Sel ''button[aria-label=\"Cart\"]'')), Did (WaitForTimeout 2000)] @
           map (Threw \<circ> snd) strategies, Inl ''Could not find checkout button'')"
    using navigateToCheckout_strategy_order [OF b] g by blast
  show ?thesis
    unfolding 1 2 by (simp add: strategies_def)
qed

section \<open>Traces and results of composed computations\<close>

lemma fst_bnd: "fst (bnd m f) = (case snd m of Inl x \<Rightarrow> fst m | Inr a \<Rightarrow> fst m @ fst (f a))"
  by (cases m) (auto simp: bnd_def split: sum.splits prod.splits)

lemma snd_bnd: "snd (bnd m f) = (case snd m of Inl x \<Rightarrow> Inl x | Inr a \<Rightarrow> snd (f a))"
  by (cases m) (auto simp: bnd_def split: sum.splits prod.splits)

lemma snd_await: "snd (await e s c) = (case faultAt e s of None \<Rightarrow> Inr () | Some m \<Rightarrow> Inl m)"
  by (simp add: await_def split: option.splits)

lemma allCalls_pure [simp]: "allCalls Q ([], r)"
  by (simp add: allCalls_def)

lemma allCalls_await: "Q c \<Longrightarrow> allCalls Q (await e s c)"
  by (simp add: allCalls_def await_def split: option.splits)

lemma allCalls_bnd: "allCalls Q m \<Longrightarrow> (\<And>a. allCalls Q (f a)) \<Longrightarrow> allCalls Q (bnd m f)"
  by (simp add: allCalls_def fst_bnd split: sum.splits)

lemma allCalls_steps: "list_all (\<lambda>sc. Q (snd sc)) cs \<Longrightarrow> allCalls Q (steps e cs)"
proof (induction cs)
  case Nil
  show ?case by simp
next
  case (Cons sc cs)
  obtain s c where sc: "sc = (s, c)" by (cases sc)
  with Cons show ?case
    by (auto intro!: allCalls_bnd allCalls_await)
qed

lemma fst_tryCatch:
  "fst (tryCatch m h) = (case snd m of Inr a \<Rightarrow> fst m | Inl x \<Rightarrow> fst m @ fst (h x))"
  by (cases m) (auto simp: tryCatch_def split: sum.splits prod.splits)

lemma snd_tryCatch:
  "snd (tryCatch m h) = (case snd m of Inr a \<Rightarrow> Inr a | Inl x \<Rightarrow> snd (h x))"
  by (cases m) (auto simp: tryCatch_def split: sum.splits prod.splits)

lemma fst_tryFinally: "fst (tryFinally m fin) = fst m @ fst fin"
  by (cases m; cases fin) (auto simp: tryFinally_def split: sum.splits)

lemma snd_tryFinally:
  "snd (tryFinally m fin) = (case snd fin of Inl x \<Rightarrow> Inl x | Inr u \<Rightarrow> snd m)"
  by (cases m; cases fin) (auto simp: tryFinally_def split: sum.splits)

lemma allCalls_tryCatch:
  "allCalls Q m \<Longrightarrow> (\<And>x. allCalls Q (h x)) \<Longrightarrow> allCalls Q (tryCatch m h)"
  by (simp add: allCalls_def fst_tryCatch split: sum.splits)

lemma allCalls_if:
  "(b \<Longrightarrow> allCalls Q m) \<Longrightarrow> (\<not> b \<Longrightarrow> allCalls Q m') \<Longrightarrow> allCalls Q (if b then m else m')"
  by simp

lemma allCalls_swallow: "allCalls Q m \<Longrightarrow> allCalls Q (swallow m)"
  unfolding swallow_def by (rule allCalls_tryCatch) simp_all

section \<open>The CVV loops\<close>

lemma allCalls_tryInput:
  assumes "\<And>t. Q (IsVisible (Input i) t)" "Q (IsEnabled (Input i))" "\<And>a. Q (GetAttribute (Input i) a)"
    "Q (Click (Input i))" "\<And>n. Q (WaitForTimeout n)" "\<And>x. Q (Fill (Input i) x)"
  shows "allCalls Q (tryInput c e i inp)"
  unfolding tryInput_def
  by (intro allCalls_bnd allCalls_steps allCalls_if allCalls_pure) (simp_all add: assms)

lemma allCalls_cvvLoop:
  assumes "\<And>i t. Q (IsVisible (Input i) t)" "\<And>i. Q (IsEnabled (Input i))"
    "\<And>i a. Q (GetAttribute (Input i) a)"
    "\<And>i. Q (Click (Input i))" "\<And>n. Q (WaitForTimeout n)" "\<And>i x. Q (Fill (Input i) x)"
  shows "allCalls Q (cvvLoop c e i inps)"
proof (induction inps arbitrary: i)
  case Nil
  show ?case by simp
next
  case (Cons inp inps)
  have t: "allCalls Q (tryInput c e i inp)"
    by (intro allCalls_tryInput assms)
  from Cons [of "Suc i"] t show ?case
    by (auto simp: allCalls_def split: prod.splits sum.splits bool.splits)
qed

lemma allCalls_trySelector:
  assumes "\<And>t. Q (IsVisible (InFrame sel) t)" "Q (Click (InFrame sel))" "\<And>n. Q (WaitForTimeout n)"
    "\<And>x. Q (Fill (InFrame sel) x)"
  shows "allCalls Q (trySelector c e j sel)"
  unfolding trySelector_def
  by (intro allCalls_bnd allCalls_steps allCalls_await allCalls_if allCalls_pure) (simp_all add: assms)

lemma allCalls_fallbackLoop:
  assumes "\<And>sel t. sel \<in> set sels \<Longrightarrow> Q (IsVisible (InFrame sel) t)"
    "\<And>sel. sel \<in> set sels \<Longrightarrow> Q (Click (InFrame sel))" "\<And>n. Q (WaitForTimeout n)"
    "\<And>sel x. sel \<in> set sels \<Longrightarrow> Q (Fill (InFrame sel) x)"
  shows "allCalls Q (fallbackLoop c e j sels)"
  using assms
proof (induction sels arbitrary: j)
  case Nil
  show ?case by simp
next
  case (Cons sel sels)
  have t: "allCalls Q (trySelector c e j sel)"
    by (intro allCalls_trySelector) (simp_all add: Cons.prems)
  have "allCalls Q (fallbackLoop c e (Suc j) sels)"
    by (intro Cons.IH) (simp_all add: Cons.prems)
  with t show ?case
    by (auto simp: allCalls_def split: prod.splits sum.splits bool.splits)
qed


section \<open>handlePayment\<close>

lemma allCalls_enterCardNumber:
  assumes "\<And>cl. harmless cl \<Longrightarrow> Q cl"
    and "cardVisible e \<Longrightarrow> Q (Click cardField)"
    and "\<And>x. cardVisible e \<Longrightarrow> Q (Fill cardField x)"
  shows "allCalls Q (enterCardNumber c e)"
  unfolding enterCardNumber_def
  by (intro allCalls_bnd allCalls_steps allCalls_if allCalls_pure allCalls_await)
     (simp_all add: assms harmless_def)

lemma allCalls_enterCvv:
  assumes "\<And>cl. harmless cl \<Longrightarrow> Q cl"
    and "\<And>i. Q (Click (Input i))" and "\<And>i x. Q (Fill (Input i) x)"
    and "\<And>sel. sel \<in> set cvvSelectors \<Longrightarrow> Q (Click (InFrame sel))"
    and "\<And>sel x. sel \<in> set cvvSelectors \<Longrightarrow> Q (Fill (InFrame sel) x)"
  shows "allCalls Q (enterCvv c e)"
proof -
  have 1: "allCalls Q (cvvLoop c e 0 (allInputs e))"
    by (intro allCalls_cvvLoop assms) (simp_all add: harmless_def)
  have 2: "allCalls Q (fallbackLoop c e 0 cvvSelectors)"
    by (intro allCalls_fallbackLoop assms) (simp_all add: harmless_def)
  have "allCalls Q (case cvvLoop c e 0 (allInputs e) of
         (es, Some i) \<Rightarrow> (es, Inr ())
       | (es, None) \<Rightarrow>
           (case fallbackLoop c e 0 cvvSelectors of (es', found) \<Rightarrow> (es @ es', Inr ())))"
    using 1 2 by (auto simp: allCalls_def split: prod.splits option.splits)
  then show ?thesis
    unfolding enterCvv_def
    by (intro allCalls_bnd allCalls_await assms) (simp_all add: harmless_def)
qed

lemma allCalls_enterExpiry:
  assumes "\<And>cl. harmless cl \<Longrightarrow> Q cl"
    and "Q (Click expiryField)" and "\<And>x. Q (Fill expiryField x)"
  shows "allCalls Q (enterExpiry c e)"
  unfolding enterExpiry_def
  by (intro allCalls_steps) (simp_all add: assms harmless_def)

lemma allCalls_stopTimer: "(\<And>cl. harmless cl \<Longrightarrow> Q cl) \<Longrightarrow> allCalls Q (stopTimer e)"
  unfolding stopTimer_def
  by (intro allCalls_swallow allCalls_await) (simp add: harmless_def)

lemma allCalls_placeOrder:
  assumes "\<And>cl. harmless cl \<Longrightarrow> Q cl"
    and "placeEnabled e \<Longrightarrow> Q MonitorPaymentErrors"
    and "placeEnabled e \<Longrightarrow> Q (Click placeOrderButton)"
  shows "allCalls Q (placeOrder e)"
proof -
  have "allCalls Q ([Did MonitorPaymentErrors], Inr ())" if "placeEnabled e"
    using that assms(2) by (simp add: allCalls_def)
  then show ?thesis
    unfolding placeOrder_def Let_def
    by (intro allCalls_bnd allCalls_steps allCalls_if allCalls_pure allCalls_await
          allCalls_stopTimer assms)
       (simp_all add: assms harmless_def)
qed

lemma allCalls_handlePayment:
  assumes "\<And>cl. harmless cl \<Longrightarrow> Q cl"
    and "\<And>s x. Q (Fill (Sel s) x)"
    and "cardVisible e \<Longrightarrow> Q (Click cardField)"
    and "\<And>x. cardVisible e \<Longrightarrow> Q (Fill cardField x)"
    and "\<And>i. Q (Click (Input i))" and "\<And>i x. Q (Fill (Input i) x)"
    and "\<And>sel. sel \<in> set cvvSelectors \<Longrightarrow> Q (Click (InFrame sel))"
    and "\<And>sel x. sel \<in> set cvvSelectors \<Longrightarrow> Q (Fill (InFrame sel) x)"
    and "Q (Click expiryField)"
    and "placeEnabled e \<Longrightarrow> Q MonitorPaymentErrors"
    and "placeEnabled e \<Longrightarrow> Q (Click placeOrderButton)"
  shows "allCalls Q (handlePayment c e)"
proof -
  have 1: "allCalls Q (steps e (paymentPrelude c))"
    by (intro allCalls_steps) (simp add: paymentPrelude_def assms harmless_def)
  have 2: "allCalls Q (enterCardNumber c e)"
    by (intro allCalls_enterCardNumber assms)
  have 3: "allCalls Q (enterCvv c e)"
    by (intro allCalls_enterCvv assms)
  have f: "\<And>x. Q (Fill expiryField x)"
    by (simp add: expiryField_def assms(2))
  have 4: "allCalls Q (enterExpiry c e)"
    by (rule allCalls_enterExpiry) (simp_all add: assms(1,9) f)
  have 5: "allCalls Q (placeOrder e)"
    by (intro allCalls_placeOrder assms)
  show ?thesis
    unfolding handlePayment_def
    by (intro allCalls_bnd allCalls_if allCalls_pure 1 2 3 4 5)
qed

section \<open>Runs on a page where every call resolves\<close>

lemma snd_steps_ok: "\<forall>s. faultAt e s = None \<Longrightarrow> snd (steps e cs) = Inr ()"
  using steps_ok [of cs e] by simp

lemma snd_swallow: "snd (swallow m) = Inr ()"
  by (simp add: swallow_def snd_tryCatch split: sum.splits)

lemma snd_enterCvv: "snd (enterCvv c e) = snd (await e [323] AllInputs)"
  by (simp add: enterCvv_def snd_bnd split: sum.splits prod.splits option.splits)

lemma snd_navigateToCheckout_ok:
  "\<forall>s. faultAt e s = None \<Longrightarrow> snd (navigateToCheckout e) = Inr ()"
  by (simp add: navigateToCheckout_def strategies_def await_ok)

lemma snd_fillShippingInfo_ok:
  "\<forall>s. faultAt e s = None \<Longrightarrow> snd (fillShippingInfo c e) = Inr ()"
  by (simp add: fillShippingInfo_def snd_bnd snd_steps_ok snd_swallow del: steps.simps)

lemma snd_placeOrder_ok:
  "\<forall>s. faultAt e s = None \<Longrightarrow>
   snd (placeOrder e) =
     Inr (if placeEnabled e \<and> errorFound (monitorPaymentErrors e)
          then \<lparr>success = False, message = None, error = Some (errorMessage (monitorPaymentErrors e))\<rparr>
          else \<lparr>success = True, message = None, error = None\<rparr>)"
  by (simp add: placeOrder_def snd_bnd snd_steps_ok snd_await stopTimer_def snd_swallow Let_def
        del: steps.simps)

lemma snd_handlePayment_ok:
  "\<forall>s. faultAt e s = None \<Longrightarrow> hasFrame e \<Longrightarrow> snd (handlePayment c e) = snd (placeOrder e)"
  by (simp add: handlePayment_def snd_bnd snd_steps_ok snd_enterCvv snd_await
        enterCardNumber_def enterExpiry_def del: steps.simps)

lemma snd_stages_ok:
  "\<forall>s. faultAt e s = None \<Longrightarrow> hasFrame e \<Longrightarrow> snd (stages c url e) = snd (placeOrder e)"
  by (simp add: stages_def snd_bnd snd_steps_ok snd_await addSimpleTimer_def snd_swallow
        snd_navigateToCheckout_ok fillContactInfo_def snd_fillShippingInfo_ok
        snd_handlePayment_ok del: steps.simps)

section \<open>The stages issue no callback and no release\<close>

lemma allCalls_tryStrategies:
  "list_all (\<lambda>sc. Q (snd sc)) ss \<Longrightarrow> allCalls Q (tryStrategies e ss)"
proof (induction ss)
  case Nil
  show ?case by simp
next
  case (Cons sc ss)
  obtain s c where sc: "sc = (s, c)" by (cases sc)
  have "allCalls Q (await e s c)"
    using Cons.prems sc by (intro allCalls_await) simp
  moreover have "allCalls Q (tryStrategies e ss)"
    using Cons by simp
  ultimately show ?case
    using sc by (auto simp: allCalls_def split: prod.splits sum.splits)
qed

lemma stageCall_harmless: "harmless cl \<Longrightarrow> stageCall cl"
  by (cases cl) (simp_all add: harmless_def stageCall_def isCallback_def)

lemma stageCall_simps [simp]:
  "stageCall (Click t)" "stageCall (Fill t x)" "stageCall MonitorPaymentErrors"
  "stageCall (WaitForTimeout n)" "stageCall (WaitForSelector s n)" "stageCall (WaitFor t s n)"
  "stageCall (Goto u)" "stageCall (Evaluate s)"
  by (simp_all add: stageCall_def isCallback_def)

lemma allCalls_navigateToCheckout: "allCalls stageCall (navigateToCheckout e)"
proof -
  have "allCalls stageCall (tryStrategies e strategies)"
    by (intro allCalls_tryStrategies) (simp add: strategies_def)
  then have "allCalls stageCall (case tryStrategies e strategies of
         (es, checkoutClicked) \<Rightarrow>
           if \<not> checkoutClicked then (es, Inl ''Could not find checkout button'')
           else bnd (es, Inr ()) (\<lambda>_. steps e [([231], WaitForTimeout 2000)]))"
    by (auto simp: allCalls_def await_def split: prod.splits option.splits)
  then show ?thesis
    unfolding navigateToCheckout_def
    by (intro allCalls_bnd allCalls_steps) simp_all
qed

lemma allCalls_fillContactInfo: "allCalls stageCall (fillContactInfo c e)"
  unfolding fillContactInfo_def
  by (intro allCalls_steps) (simp add: submitButton_def)

lemma allCalls_fillShippingInfo: "allCalls stageCall (fillShippingInfo c e)"
  unfolding fillShippingInfo_def addressValidation_def
  by (intro allCalls_bnd allCalls_steps allCalls_swallow)
     (simp_all add: shippingForm_def useAddressButton_def continueButton_def)

lemma allCalls_stages: "allCalls stageCall (stages c url e)"
proof -
  have "allCalls stageCall (handlePayment c e)"
    by (rule allCalls_handlePayment) (simp_all add: stageCall_harmless)
  then show ?thesis
    unfolding stages_def addSimpleTimer_def
    by (intro allCalls_bnd allCalls_steps allCalls_swallow allCalls_await
          allCalls_navigateToCheckout allCalls_fillContactInfo allCalls_fillShippingInfo)
       simp_all
qed

lemma callbacks_append [simp]: "callbacks (es @ es') = callbacks es @ callbacks es'"
  by (simp add: callbacks_def)

lemma closes_append [simp]: "closes (es @ es') = closes es @ closes es'"
  by (simp add: closes_def)

lemma stageCall_callbacks: "allCalls stageCall m \<Longrightarrow> callbacks (fst m) = [] \<and> closes (fst m) = []"
  by (auto simp: allCalls_def callbacks_def closes_def stageCall_def list_all_iff filter_empty_conv)

lemmas stages_silent = stageCall_callbacks [OF allCalls_stages]

section \<open>executeCheckout\<close>

lemma fst_await: "fst (await e s c) = (case faultAt e s of None \<Rightarrow> [Did c] | Some m \<Rightarrow> [Threw c])"
  by (simp add: await_def split: option.splits)

lemma createBrowser_ok:
  "faultAt e [57] = None \<Longrightarrow> faultAt e [70] = None \<Longrightarrow>
   createBrowser c e = ([Did (Launch (headless c)), Did NewPage], Inr ())"
  by (simp add: createBrowser_def await_ok)

lemma executeCheckout_unfold:
  "productUrl c = Some url \<Longrightarrow> url \<noteq> [] \<Longrightarrow> faultAt e [57] = None \<Longrightarrow> faultAt e [70] = None \<Longrightarrow>
   executeCheckout c e =
     (Did (Launch (headless c)) # Did NewPage #
        fst (tryCatch (tryBlock c url e) (catchBlock c e)) @ fst (await e [202] Close),
      case faultAt e [202] of
        Some m \<Rightarrow> Inl m
      | None \<Rightarrow> snd (tryCatch (tryBlock c url e) (catchBlock c e)))"
  by (simp add: executeCheckout_def createBrowser_ok fst_tryFinally snd_tryFinally snd_await
        split: option.splits)

lemma callbacks_simps [simp]:
  "callbacks [] = []"
  "callbacks (Did (OnComplete r) # es) = OnComplete r # callbacks es"
  "callbacks (Threw (OnComplete r) # es) = OnComplete r # callbacks es"
  "callbacks (Did (OnError r) # es) = OnError r # callbacks es"
  "callbacks (Threw (OnError r) # es) = OnError r # callbacks es"
  "callbacks (Did Screenshot # es) = callbacks es"
  "callbacks (Threw Screenshot # es) = callbacks es"
  "callbacks (Did Close # es) = callbacks es"
  "callbacks (Threw Close # es) = callbacks es"
  "callbacks (Did (Launch h) # es) = callbacks es"
  "callbacks (Did NewPage # es) = callbacks es"
  by (simp_all add: callbacks_def isCallback_def)

lemma closes_simps [simp]:
  "closes [] = []"
  "closes (Did (OnComplete r) # es) = closes es"
  "closes (Threw (OnComplete r) # es) = closes es"
  "closes (Did (OnError r) # es) = closes es"
  "closes (Threw (OnError r) # es) = closes es"
  "closes (Did Screenshot # es) = closes es"
  "closes (Threw Screenshot # es) = closes es"
  "closes (Did Close # es) = Close # closes es"
  "closes (Threw Close # es) = Close # closes es"
  "closes (Did (Launch h) # es) = closes es"
  "closes (Did NewPage # es) = closes es"
  by (simp_all add: closes_def)

text \<open>The callbacks of the try and catch blocks, by the result of the stages.\<close>

lemma callbacks_tryCatch:
  "callbacks (fst (tryCatch (tryBlock c url e) (catchBlock c e))) =
     (case snd (stages c url e) of
        Inr r \<Rightarrow>
          if onComplete c then
            OnComplete \<lparr>success = True, message = Some ''Checkout completed'', error = None\<rparr> #
            (case faultAt e [189] of
               None \<Rightarrow> []
             | Some m \<Rightarrow>
                 if faultAt e [194] = None \<and> onError c
                 then [OnError \<lparr>success = False, message = None, error = Some m\<rparr>] else [])
          else []
      | Inl m \<Rightarrow>
          if faultAt e [194] = None \<and> onError c
          then [OnError \<lparr>success = False, message = None, error = Some m\<rparr>] else [])"
  using stages_silent [of c url e]
  by (simp add: fst_tryCatch tryBlock_def catchBlock_def fst_bnd snd_bnd fst_await snd_await
        split: sum.splits option.splits)

lemma closes_tryCatch: "closes (fst (tryCatch (tryBlock c url e) (catchBlock c e))) = []"
  using stages_silent [of c url e]
  by (simp add: fst_tryCatch tryBlock_def catchBlock_def fst_bnd snd_bnd fst_await snd_await
        split: sum.splits option.splits)

lemma snd_tryCatch_ok:
  "snd (stages c url e) = Inr r \<Longrightarrow> faultAt e [189] = None \<Longrightarrow>
   snd (tryCatch (tryBlock c url e) (catchBlock c e)) = Inr ()"
  by (simp add: snd_tryCatch tryBlock_def snd_bnd snd_await)

text \<open>A run on a page where every call resolves.\<close>

lemma executeCheckout_ok:
  assumes "\<forall>s. faultAt e s = None" and "hasFrame e" and "productUrl c = Some url" and "url \<noteq> []"
  shows "snd (executeCheckout c e) = Inr ()"
    and "callbacks (fst (executeCheckout c e)) =
      (if onComplete c
       then [OnComplete \<lparr>success = True, message = Some ''Checkout completed'', error = None\<rparr>]
       else [])"
    and "closes (fst (executeCheckout c e)) = [Close]"
proof -
  obtain r where r: "snd (stages c url e) = Inr r"
    using snd_stages_ok [OF assms(1,2), of c url] snd_placeOrder_ok [OF assms(1)] by simp
  have u: "executeCheckout c e =
     (Did (Launch (headless c)) # Did NewPage #
        fst (tryCatch (tryBlock c url e) (catchBlock c e)) @ fst (await e [202] Close),
      case faultAt e [202] of
        Some m \<Rightarrow> Inl m
      | None \<Rightarrow> snd (tryCatch (tryBlock c url e) (catchBlock c e)))"
    using assms by (intro executeCheckout_unfold) simp_all
  show "snd (executeCheckout c e) = Inr ()"
    unfolding u using assms(1) snd_tryCatch_ok [OF r] by simp
  show "callbacks (fst (executeCheckout c e)) =
      (if onComplete c
       then [OnComplete \<lparr>success = True, message = Some ''Checkout completed'', error = None\<rparr>]
       else [])"
    unfolding u using assms(1) r by (simp add: callbacks_tryCatch fst_await)
  show "closes (fst (executeCheckout c e)) = [Close]"
    unfolding u using assms(1) by (simp add: closes_tryCatch fst_await)
qed

section \<open>The terminal callbacks and the release of the browser\<close>

text \<open>
  Claim C3, as amended. For every run that has a product URL and obtains its browser and
  page, \<open>browser.close\<close> is called exactly once, on every path, and neither callback is
  called twice. When both callbacks are set and neither the \<open>onComplete\<close> call nor the
  screenshot throws, exactly one callback is called: \<open>onError\<close> with the thrown message
  when a stage throws, \<open>onComplete\<close> when every stage returns and \<open>handlePayment\<close>
  reports success.
\<close>

theorem executeCheckout_callbacks_and_release:
  assumes "productUrl c = Some url" and "url \<noteq> []"
    and "faultAt e [57] = None" and "faultAt e [70] = None"
  shows
    "closes (fst (executeCheckout c e)) = [Close] \<and>
     length (filter (\<lambda>cl. \<exists>r. cl = OnComplete r) (callbacks (fst (executeCheckout c e)))) \<le> 1 \<and>
     length (filter (\<lambda>cl. \<exists>r. cl = OnError r) (callbacks (fst (executeCheckout c e)))) \<le> 1 \<and>
     (onComplete c \<and> onError c \<and> faultAt e [189] = None \<and> faultAt e [194] = None \<longrightarrow>
        length (callbacks (fst (executeCheckout c e))) = 1 \<and>
        (\<forall>m. snd (stages c url e) = Inl m \<longrightarrow>
           callbacks (fst (executeCheckout c e)) =
             [OnError \<lparr>success = False, message = None, error = Some m\<rparr>]) \<and>
        (\<forall>r. snd (stages c url e) = Inr r \<and> success r \<longrightarrow>
           callbacks (fst (executeCheckout c e)) =
             [OnComplete \<lparr>success = True, message = Some ''Checkout completed'', error = None\<rparr>]))"
proof -
  have u: "executeCheckout c e =
     (Did (Launch (headless c)) # Did NewPage #
        fst (tryCatch (tryBlock c url e) (catchBlock c e)) @ fst (await e [202] Close),
      case faultAt e [202] of
        Some m \<Rightarrow> Inl m
      | None \<Rightarrow> snd (tryCatch (tryBlock c url e) (catchBlock c e)))"
    using assms by (intro executeCheckout_unfold) simp_all
  have cl: "closes (fst (await e [202] Close)) = [Close]" "callbacks (fst (await e [202] Close)) = []"
    by (simp_all add: fst_await split: option.splits)
  show ?thesis
    unfolding u
    by (auto simp: cl closes_tryCatch callbacks_tryCatch split: sum.splits option.splits)
qed

theorem executeCheckout_callbacks_and_release_witness:
  "snd (stages buyer ''https://www.finewineandgoodspirits.com/product/000001234'' noCheckoutButtonPage) =
     Inl ''Could not find checkout button'' \<and>
   callbacks (fst (executeCheckout buyer noCheckoutButtonPage)) =
     [OnError \<lparr>success = False, message = None, error = Some ''Could not find checkout button''\<rparr>] \<and>
   closes (fst (executeCheckout buyer noCheckoutButtonPage)) = [Close]"
proof -
  have f: "faultAt noCheckoutButtonPage [57] = None" "faultAt noCheckoutButtonPage [70] = None"
    "faultAt noCheckoutButtonPage [189] = None" "faultAt noCheckoutButtonPage [194] = None"
    by (simp_all add: noCheckoutButtonPage_def happyPage_def)
  have b: "productUrl buyer = Some ''https://www.finewineandgoodspirits.com/product/000001234''"
    "''https://www.finewineandgoodspirits.com/product/000001234'' \<noteq> []"
    "onComplete buyer" "onError buyer"
    by (simp_all add: buyer_def)
  have n: "snd (navigateToCheckout noCheckoutButtonPage) = Inl ''Could not find checkout button''"
    by (simp add: navigateToCheckout_def strategies_def await_def noCheckoutButtonPage_def
          happyPage_def)
  have g: "faultAt noCheckoutButtonPage s = None" if "s \<notin> {[212], [213], [214]}" for s
    using that by (simp add: noCheckoutButtonPage_def happyPage_def)
  have s: "snd (stages buyer ''https://www.finewineandgoodspirits.com/product/000001234''
      noCheckoutButtonPage) = Inl ''Could not find checkout button''"
    by (simp add: stages_def snd_bnd snd_await addSimpleTimer_def snd_swallow n g)
  show ?thesis
    using executeCheckout_callbacks_and_release [OF b(1,2) f(1,2)] b(3,4) f(3,4) s by simp
qed

text \<open>
  A run that emits no callback at all: no callback was passed to the constructor, every
  call resolves, and the run returns normally after releasing the browser.
\<close>

theorem executeCheckout_without_callbacks:
  "callbacks (fst (executeCheckout silentBuyer happyPage)) = [] \<and>
   snd (executeCheckout silentBuyer happyPage) = Inr () \<and>
   closes (fst (executeCheckout silentBuyer happyPage)) = [Close]"
proof -
  have a: "\<forall>s. faultAt happyPage s = None" "hasFrame happyPage"
    by (simp_all add: happyPage_def)
  have b: "productUrl silentBuyer = Some ''https://www.finewineandgoodspirits.com/product/000001234''"
    "''https://www.finewineandgoodspirits.com/product/000001234'' \<noteq> []"
    "\<not> onComplete silentBuyer"
    by (simp_all add: silentBuyer_def buyer_def)
  show ?thesis
    using executeCheckout_ok [OF a b(1,2)] b(3) by simp
qed

section \<open>A payment the poller reports as declined\<close>

lemma monitor_declinedPage:
  "monitorPaymentErrors declinedPage =
     \<lparr>errorFound = True, errorMessage = ''Card declined'', timing = 1000\<rparr>"
proof -
  let ?el = "\<lparr>elVisible = True, elText = Some ''Card declined''\<rparr>"
  have v: "visibleError ?el"
    by (simp add: visibleError_def errorKeywords_def toLowerCase_def toLowerChar_def)
  have scan: "scanSelectors declinedPage k 0 errorSelectors =
      Inr (Option.bind (find visibleError (concat (map (errorElements declinedPage k) errorSelectors)))
            (\<lambda>el. map_option trim (elText el)))" for k
    by (intro scanSelectors_find) (simp_all add: declinedPage_def happyPage_def)
  have tr: "trim ''Card declined'' = ''Card declined''"
    by (simp add: trim_def isSpace_def)
  have at: "scanSelectors declinedPage 5 0 errorSelectors = Inr (Some ''Card declined'')"
    unfolding scan using v by (simp add: declinedPage_def happyPage_def errorSelectors_def tr)
  have before: "\<forall>k' m'. 0 < k' \<and> k' < 5 \<longrightarrow> scanSelectors declinedPage k' 0 errorSelectors \<noteq> Inr (Some m')"
    unfolding scan by (simp add: declinedPage_def happyPage_def errorSelectors_def)
  have "checkForErrors declinedPage False [] 0 =
      \<lparr>errorFound = True, errorMessage = ''Card declined'', timing = 5 * 200\<rparr>"
    using at before by (intro checkForErrors_first) (simp_all add: maxChecks_def)
  then show ?thesis
    by (simp add: monitorPaymentErrors_def)
qed

text \<open>
  Claim C1, on the page that shows \<open>Card declined\<close> at the fifth check: \<open>handlePayment\<close>
  returns the failure with the detected text, but \<open>executeCheckout\<close> does not look at
  the value; the only callback of the run is \<open>onComplete\<close> with \<open>success = true\<close>,
  \<open>onError\<close> is not called, and the run returns normally.
\<close>

theorem executeCheckout_reports_declined_payment_as_success:
  "snd (handlePayment buyer declinedPage) =
     Inr \<lparr>success = False, message = None, error = Some ''Card declined''\<rparr> \<and>
   callbacks (fst (executeCheckout buyer declinedPage)) =
     [OnComplete \<lparr>success = True, message = Some ''Checkout completed'', error = None\<rparr>] \<and>
   snd (executeCheckout buyer declinedPage) = Inr ()"
proof -
  have a: "\<forall>s. faultAt declinedPage s = None" "hasFrame declinedPage" "placeEnabled declinedPage"
    by (simp_all add: declinedPage_def happyPage_def)
  have b: "productUrl buyer = Some ''https://www.finewineandgoodspirits.com/product/000001234''"
    "''https://www.finewineandgoodspirits.com/product/000001234'' \<noteq> []"
    "onComplete buyer"
    by (simp_all add: buyer_def)
  have "snd (handlePayment buyer declinedPage) =
     Inr \<lparr>success = False, message = None, error = Some ''Card declined''\<rparr>"
    using a by (simp add: snd_handlePayment_ok snd_placeOrder_ok monitor_declinedPage)
  then show ?thesis
    using executeCheckout_ok [OF a(1,2) b(1,2)] b(3) by simp
qed

section \<open>A place-order button that is visible and disabled\<close>

text \<open>
  Claim C8. If the place-order button is not enabled, no call of \<open>handlePayment\<close> clicks
  it or starts the monitor, and whenever \<open>handlePayment\<close> returns it returns
  \<open>success = true\<close>. On a page where every call resolves, it does return, and the run
  of a buyer who set \<open>onComplete\<close> calls it with the success outcome and returns normally.
\<close>

theorem handlePayment_disabled_button:
  assumes "\<not> placeEnabled e"
  shows
    "allCalls (\<lambda>cl. cl \<noteq> Click placeOrderButton \<and> cl \<noteq> MonitorPaymentErrors) (handlePayment c e) \<and>
     (\<forall>r. snd (handlePayment c e) = Inr r \<longrightarrow> r = \<lparr>success = True, message = None, error = None\<rparr>) \<and>
     ((\<forall>s. faultAt e s = None) \<and> hasFrame e \<and> productUrl c = Some url \<and> url \<noteq> [] \<and> onComplete c \<longrightarrow>
        snd (handlePayment c e) = Inr \<lparr>success = True, message = None, error = None\<rparr> \<and>
        callbacks (fst (executeCheckout c e)) =
          [OnComplete \<lparr>success = True, message = Some ''Checkout completed'', error = None\<rparr>] \<and>
        snd (executeCheckout c e) = Inr ())"
proof (intro conjI allI impI)
  show "allCalls (\<lambda>cl. cl \<noteq> Click placeOrderButton \<and> cl \<noteq> MonitorPaymentErrors) (handlePayment c e)"
    by (rule allCalls_handlePayment)
       (auto simp: assms harmless_def placeOrderButton_def cardField_def expiryField_def
          split: call.splits)
next
  fix r
  assume "snd (handlePayment c e) = Inr r"
  then have "snd (placeOrder e) = Inr r"
    by (auto simp: handlePayment_def snd_bnd split: sum.splits if_splits)
  then show "r = \<lparr>success = True, message = None, error = None\<rparr>"
    using assms by (auto simp: placeOrder_def snd_bnd split: sum.splits)
next
  assume h: "(\<forall>s. faultAt e s = None) \<and> hasFrame e \<and> productUrl c = Some url \<and> url \<noteq> [] \<and> onComplete c"
  then show "snd (handlePayment c e) = Inr \<lparr>success = True, message = None, error = None\<rparr>"
    using assms by (simp add: snd_handlePayment_ok snd_placeOrder_ok)
  from h show "callbacks (fst (executeCheckout c e)) =
          [OnComplete \<lparr>success = True, message = Some ''Checkout completed'', error = None\<rparr>]"
    using executeCheckout_ok(2) [of e c url] by simp
  from h show "snd (executeCheckout c e) = Inr ()"
    using executeCheckout_ok(1) [of e c url] by simp
qed

theorem handlePayment_disabled_button_witness:
  "\<not> placeEnabled disabledButtonPage \<and>
   snd (handlePayment buyer disabledButtonPage) = Inr \<lparr>success = True, message = None, error = None\<rparr> \<and>
   callbacks (fst (executeCheckout buyer disabledButtonPage)) =
     [OnComplete \<lparr>success = True, message = Some ''Checkout completed'', error = None\<rparr>] \<and>
   Did (Click placeOrderButton) \<notin> set (fst (handlePayment buyer disabledButtonPage))"
proof -
  have a: "\<not> placeEnabled disabledButtonPage"
    by (simp add: disabledButtonPage_def happyPage_def)
  have h: "(\<forall>s. faultAt disabledButtonPage s = None) \<and> hasFrame disabledButtonPage \<and>
      productUrl buyer = Some ''https://www.finewineandgoodspirits.com/product/000001234'' \<and>
      ''https://www.finewineandgoodspirits.com/product/000001234'' \<noteq> [] \<and> onComplete buyer"
    by (simp add: disabledButtonPage_def happyPage_def buyer_def)
  note t = handlePayment_disabled_button [OF a, of buyer
      "''https://www.finewineandgoodspirits.com/product/000001234''"]
  have "Did (Click placeOrderButton) \<notin> set (fst (handlePayment buyer disabledButtonPage))"
    using t by (auto simp: allCalls_def list_all_iff)
  with t h a show ?thesis by blast
qed

section \<open>A card field that is not visible\<close>

text \<open>
  Claim C9. If the card field is reported not visible, entering the card number ends
  after the visibility check without a fault, \<open>handlePayment\<close> goes on with the CVV, the
  expiry date and the order, and no call of it types into the card field.
\<close>

theorem handlePayment_invisible_card_field:
  assumes "\<forall>s\<in>set (map fst (paymentPrelude c)). faultAt e s = None"
    and "hasFrame e" and "faultAt e [311] = None" and "\<not> cardVisible e"
  shows
    "enterCardNumber c e = ([Did (IsVisible cardField 3000)], Inr ()) \<and>
     handlePayment c e =
       bnd (map (Did \<circ> snd) (paymentPrelude c) @ [Did (IsVisible cardField 3000)], Inr ()) (\<lambda>_.
         bnd (enterCvv c e) (\<lambda>_. bnd (enterExpiry c e) (\<lambda>_. placeOrder e))) \<and>
     allCalls (\<lambda>cl. filledTarget cl \<noteq> Some cardField) (handlePayment c e)"
proof (intro conjI)
  show 1: "enterCardNumber c e = ([Did (IsVisible cardField 3000)], Inr ())"
    using assms(3,4) by (simp add: enterCardNumber_def await_ok)
  show "handlePayment c e =
       bnd (map (Did \<circ> snd) (paymentPrelude c) @ [Did (IsVisible cardField 3000)], Inr ()) (\<lambda>_.
         bnd (enterCvv c e) (\<lambda>_. bnd (enterExpiry c e) (\<lambda>_. placeOrder e)))"
    using assms(2) steps_ok [OF assms(1)] by (simp add: handlePayment_def 1)
  show "allCalls (\<lambda>cl. filledTarget cl \<noteq> Some cardField) (handlePayment c e)"
    by (rule allCalls_handlePayment)
       (auto simp: assms(4) harmless_def filledTarget_def cardField_def cvvSelectors_def
          split: call.splits)
qed

theorem handlePayment_invisible_card_field_witness:
  "\<not> cardVisible hiddenCardPage \<and>
   enterCardNumber buyer hiddenCardPage = ([Did (IsVisible cardField 3000)], Inr ()) \<and>
   Did (Fill cardField (cardNumber (paymentInfo buyer))) \<notin> set (fst (handlePayment buyer hiddenCardPage)) \<and>
   snd (handlePayment buyer hiddenCardPage) = Inr \<lparr>success = True, message = None, error = None\<rparr>"
proof -
  have a: "\<forall>s\<in>set (map fst (paymentPrelude buyer)). faultAt hiddenCardPage s = None"
    "hasFrame hiddenCardPage" "faultAt hiddenCardPage [311] = None" "\<not> cardVisible hiddenCardPage"
    by (simp_all add: hiddenCardPage_def happyPage_def)
  note t = handlePayment_invisible_card_field [OF a]
  have 1: "Did (Fill cardField (cardNumber (paymentInfo buyer))) \<notin> set (fst (handlePayment buyer hiddenCardPage))"
    using t [THEN conjunct2, THEN conjunct2]
    by (auto simp: allCalls_def list_all_iff filledTarget_def)
  have 2: "snd (handlePayment buyer hiddenCardPage) = Inr \<lparr>success = True, message = None, error = None\<rparr>"
  proof -
    have "\<forall>s. faultAt hiddenCardPage s = None"
      by (simp add: hiddenCardPage_def happyPage_def)
    moreover have "monitorPaymentErrors hiddenCardPage =
        \<lparr>errorFound = False, errorMessage = [], timing = maxChecks * 200\<rparr>"
      unfolding monitorPaymentErrors_def
      by (intro checkForErrors_none notI allI impI)
         (auto simp: maxChecks_def hiddenCardPage_def happyPage_def dest!: scanSelectors_Some)
    ultimately show ?thesis
      using a(2) by (simp add: snd_handlePayment_ok snd_placeOrder_ok)
  qed
  from t a(4) 1 2 show ?thesis by blast
qed

section \<open>Runs on a page where only the wait for the validation dialog throws\<close>

lemma snd_steps_but:
  "\<forall>s. s \<noteq> x \<longrightarrow> faultAt e s = None \<Longrightarrow> x \<notin> fst ` set cs \<Longrightarrow> snd (steps e cs) = Inr ()"
proof -
  assume h: "\<forall>s. s \<noteq> x \<longrightarrow> faultAt e s = None" and x: "x \<notin> fst ` set cs"
  have "\<forall>s\<in>set (map fst cs). faultAt e s = None"
  proof
    fix s assume "s \<in> set (map fst cs)"
    with x have "s \<noteq> x" by auto
    with h show "faultAt e s = None" by simp
  qed
  from steps_ok [OF this] show ?thesis by simp
qed

lemma snd_await_but:
  "\<forall>s. s \<noteq> x \<longrightarrow> faultAt e s = None \<Longrightarrow> s \<noteq> x \<Longrightarrow> snd (await e s c) = Inr ()"
  by (simp add: snd_await)

lemma snd_navigateToCheckout_but:
  assumes "\<forall>s. s \<noteq> [281] \<longrightarrow> faultAt e s = None"
  shows "snd (navigateToCheckout e) = Inr ()"
proof -
  have "faultAt e [207] = None" "faultAt e [208] = None" "faultAt e [212] = None"
    "faultAt e [231] = None"
    using assms by simp_all
  then show ?thesis
    by (simp add: navigateToCheckout_def strategies_def await_ok)
qed

lemma snd_fillContactInfo_but:
  "\<forall>s. s \<noteq> [281] \<longrightarrow> faultAt e s = None \<Longrightarrow> snd (fillContactInfo c e) = Inr ()"
  unfolding fillContactInfo_def by (rule snd_steps_but [where x = "[281]"]) simp_all

lemma snd_fillShippingInfo_but:
  "\<forall>s. s \<noteq> [281] \<longrightarrow> faultAt e s = None \<Longrightarrow> snd (fillShippingInfo c e) = Inr ()"
proof -
  assume h: "\<forall>s. s \<noteq> [281] \<longrightarrow> faultAt e s = None"
  have 1: "snd (steps e (shippingForm c)) = Inr ()"
    by (rule snd_steps_but [OF h]) (simp add: shippingForm_def)
  have 2: "snd (steps e [([291], WaitForSelector ''input[id=\"input_general\"]'' 15000)]) = Inr ()"
    by (rule snd_steps_but [OF h]) simp
  show ?thesis
    using 1 2 by (simp add: fillShippingInfo_def snd_bnd snd_swallow del: steps.simps)
qed

lemma snd_placeOrder_but:
  assumes h: "\<forall>s. s \<noteq> [281] \<longrightarrow> faultAt e s = None"
  shows "\<exists>r. snd (placeOrder e) = Inr r"
proof -
  have 1: "snd (steps e [([398], WaitFor placeOrderButton ''visible'' 2000),
        ([400], IsEnabled placeOrderButton)]) = Inr ()"
    by (rule snd_steps_but [OF h]) simp
  have 2: "snd (await e [405] (Click placeOrderButton)) = Inr ()"
    by (rule snd_await_but [OF h]) simp
  show ?thesis
    using 1 2
    by (simp add: placeOrder_def snd_bnd stopTimer_def snd_swallow Let_def del: steps.simps)
qed

lemma snd_handlePayment_but:
  assumes h: "\<forall>s. s \<noteq> [281] \<longrightarrow> faultAt e s = None" and "hasFrame e"
  shows "snd (handlePayment c e) = snd (placeOrder e)"
proof -
  have 1: "snd (steps e (paymentPrelude c)) = Inr ()"
    by (rule snd_steps_but [OF h]) (simp add: paymentPrelude_def)
  have 2: "snd (enterCardNumber c e) = Inr ()"
  proof -
    have "snd (await e [311] (IsVisible cardField 3000)) = Inr ()"
      by (rule snd_await_but [OF h]) simp
    moreover have "snd (steps e
           [([312], Click cardField),
            ([313], WaitForTimeout 200),
            ([314], Fill cardField []),
            ([315], WaitForTimeout 800),
            ([316], Fill cardField (cardNumber (paymentInfo c))),
            ([317], WaitForTimeout 400)]) = Inr ()"
      by (rule snd_steps_but [OF h]) simp
    ultimately show ?thesis
      by (simp add: enterCardNumber_def snd_bnd del: steps.simps)
  qed
  have 3: "snd (enterCvv c e) = Inr ()"
    unfolding snd_enterCvv by (rule snd_await_but [OF h]) simp
  have 4: "snd (enterExpiry c e) = Inr ()"
    unfolding enterExpiry_def by (rule snd_steps_but [OF h]) simp
  show ?thesis
    using assms(2) 1 2 3 4 by (simp add: handlePayment_def snd_bnd del: steps.simps)
qed

lemma stages_but:
  assumes h: "\<forall>s. s \<noteq> [281] \<longrightarrow> faultAt e s = None"
  shows \<open>stages c url e =
     (Did (Goto url) # Did (Evaluate ''addSimpleTimer'') #
      [Did (Click (Sel ''button[aria-label="Yes, Enter into the site"]'')),
       Did (WaitForTimeout 300),
       Did (Click (Sel ''button.link:has-text("Click to see availability")'')),
       Did (WaitForSelector ''div[role="dialog"][aria-labelledby="fulfillmentMethod"]'' 3000),
       Did (Evaluate ''selectShip''),
       Did (Click (Sel ''div.pdp__container button.add-to-cart-button'')),
       Did (WaitForTimeout 500)] @
      fst (navigateToCheckout e) @ fst (fillContactInfo c e) @ fst (fillShippingInfo c e) @
      fst (handlePayment c e),
      snd (handlePayment c e))\<close>
proof -
  have f: "faultAt e [155] = None" "faultAt e [82] = None" "faultAt e [159] = None"
    "faultAt e [160] = None" "faultAt e [163] = None" "faultAt e [164] = None"
    "faultAt e [167] = None" "faultAt e [176] = None" "faultAt e [177] = None"
    using h by simp_all
  have n: "navigateToCheckout e = (fst (navigateToCheckout e), Inr ())"
    using snd_navigateToCheckout_but [OF h] by (metis prod.collapse)
  have c: "fillContactInfo c e = (fst (fillContactInfo c e), Inr ())"
    using snd_fillContactInfo_but [OF h, of c] by (metis prod.collapse)
  have s: "fillShippingInfo c e = (fst (fillShippingInfo c e), Inr ())"
    using snd_fillShippingInfo_but [OF h, of c] by (metis prod.collapse)
  show ?thesis
    unfolding stages_def addSimpleTimer_def
    by (subst n, subst c, subst s) (simp add: await_ok f swallow_def tryCatch_def)
qed


text \<open>
  Claim C7. If the wait for the address validation dialog times out, \<open>fillShippingInfo\<close>
  does not throw: the fault is caught, no validation button is clicked and the wait for
  the payment page follows. On a page where every other call resolves, the trace of the
  stages goes on, right after that wait, with the calls of \<open>handlePayment\<close>, whose
  result is the result of the stages; the run does not fail: it returns normally, calls
  \<open>onComplete\<close> if it is set, and does not call \<open>onError\<close>.
\<close>

theorem fillShippingInfo_skips_absent_validation:
  assumes "\<forall>s\<in>set (map fst (shippingForm c)). faultAt e s = None"
    and "faultAt e [281] = Some m"
    and "faultAt e [291] = None"
  shows
    \<open>fillShippingInfo c e =
       (map (Did \<circ> snd) (shippingForm c) @
        [Threw (WaitForSelector ''div[role="dialog"][aria-labelledby="validationModal"]'' 8000),
         Did (WaitForSelector ''input[id="input_general"]'' 15000)], Inr ()) \<and>
     ((\<forall>s. s \<noteq> [281] \<longrightarrow> faultAt e s = None) \<and> hasFrame e \<and>
      productUrl c = Some url \<and> url \<noteq> [] \<longrightarrow>
        stages c url e =
          (Did (Goto url) # Did (Evaluate ''addSimpleTimer'') #
           [Did (Click (Sel ''button[aria-label="Yes, Enter into the site"]'')),
            Did (WaitForTimeout 300),
            Did (Click (Sel ''button.link:has-text("Click to see availability")'')),
            Did (WaitForSelector ''div[role="dialog"][aria-labelledby="fulfillmentMethod"]'' 3000),
            Did (Evaluate ''selectShip''),
            Did (Click (Sel ''div.pdp__container button.add-to-cart-button'')),
            Did (WaitForTimeout 500)] @
           fst (navigateToCheckout e) @ fst (fillContactInfo c e) @
           (map (Did \<circ> snd) (shippingForm c) @
            [Threw (WaitForSelector ''div[role="dialog"][aria-labelledby="validationModal"]'' 8000),
             Did (WaitForSelector ''input[id="input_general"]'' 15000)]) @
           fst (handlePayment c e),
           snd (handlePayment c e)) \<and>
        (\<exists>r. snd (stages c url e) = Inr r) \<and>
        snd (executeCheckout c e) = Inr () \<and>
        callbacks (fst (executeCheckout c e)) =
          (if onComplete c
           then [OnComplete \<lparr>success = True, message = Some ''Checkout completed'', error = None\<rparr>]
           else []))\<close>
proof (intro conjI impI)
  have "addressValidation e =
      ([Threw (WaitForSelector ''div[role=\"dialog\"][aria-labelledby=\"validationModal\"]'' 8000)], Inl m)"
    using assms(2) by (simp add: addressValidation_def await_fault)
  then show 1: "fillShippingInfo c e =
       (map (Did \<circ> snd) (shippingForm c) @
        [Threw (WaitForSelector ''div[role=\"dialog\"][aria-labelledby=\"validationModal\"]'' 8000),
         Did (WaitForSelector ''input[id=\"input_general\"]'' 15000)], Inr ())"
    using assms(3) steps_ok [OF assms(1)]
    by (simp add: fillShippingInfo_def swallow_fault await_ok)
  assume a: "(\<forall>s. s \<noteq> [281] \<longrightarrow> faultAt e s = None) \<and> hasFrame e \<and>
      productUrl c = Some url \<and> url \<noteq> []"
  then have h: "\<forall>s. s \<noteq> [281] \<longrightarrow> faultAt e s = None"
    by blast
  show 2: "stages c url e =
          (Did (Goto url) # Did (Evaluate ''addSimpleTimer'') #
           [Did (Click (Sel ''button[aria-label=\"Yes, Enter into the site\"]'')),
            Did (WaitForTimeout 300),
            Did (Click (Sel ''button.link:has-text(\"Click to see availability\")'')),
            Did (WaitForSelector ''div[role=\"dialog\"][aria-labelledby=\"fulfillmentMethod\"]'' 3000),
            Did (Evaluate ''selectShip''),
            Did (Click (Sel ''div.pdp__container button.add-to-cart-button'')),
            Did (WaitForTimeout 500)] @
           fst (navigateToCheckout e) @ fst (fillContactInfo c e) @
           (map (Did \<circ> snd) (shippingForm c) @
            [Threw (WaitForSelector ''div[role=\"dialog\"][aria-labelledby=\"validationModal\"]'' 8000),
             Did (WaitForSelector ''input[id=\"input_general\"]'' 15000)]) @
           fst (handlePayment c e),
           snd (handlePayment c e))"
    using stages_but [OF h, of c url] by (simp add: 1)
  obtain r where r: "snd (stages c url e) = Inr r"
    using snd_handlePayment_but [OF h, of c] snd_placeOrder_but [OF h] a
    unfolding 2 by auto
  then show "\<exists>r. snd (stages c url e) = Inr r"
    by blast
  have f: "faultAt e [57] = None" "faultAt e [70] = None" "faultAt e [189] = None"
    "faultAt e [202] = None"
    using h by simp_all
  have u: "executeCheckout c e =
     (Did (Launch (headless c)) # Did NewPage #
        fst (tryCatch (tryBlock c url e) (catchBlock c e)) @ fst (await e [202] Close),
      case faultAt e [202] of
        Some m \<Rightarrow> Inl m
      | None \<Rightarrow> snd (tryCatch (tryBlock c url e) (catchBlock c e)))"
    using a f by (intro executeCheckout_unfold) simp_all
  show "snd (executeCheckout c e) = Inr ()"
    unfolding u using f snd_tryCatch_ok [OF r] by simp
  show "callbacks (fst (executeCheckout c e)) =
          (if onComplete c
           then [OnComplete \<lparr>success = True, message = Some ''Checkout completed'', error = None\<rparr>]
           else [])"
    unfolding u using f r by (simp add: callbacks_tryCatch fst_await)
qed

theorem fillShippingInfo_skips_absent_validation_witness:
  \<open>faultAt noValidationPage [281] = Some ''Timeout 8000ms exceeded.'' \<and>
   snd (fillShippingInfo buyer noValidationPage) = Inr () \<and>
   Did (Click useAddressButton) \<notin> set (fst (fillShippingInfo buyer noValidationPage)) \<and>
   snd (stages buyer ''https://www.finewineandgoodspirits.com/product/000001234'' noValidationPage) =
     snd (handlePayment buyer noValidationPage) \<and>
   snd (executeCheckout buyer noValidationPage) = Inr () \<and>
   callbacks (fst (executeCheckout buyer noValidationPage)) =
     [OnComplete \<lparr>success = True, message = Some ''Checkout completed'', error = None\<rparr>]\<close>
proof -
  have a: "\<forall>s\<in>set (map fst (shippingForm buyer)). faultAt noValidationPage s = None"
    by (simp add: shippingForm_def noValidationPage_def happyPage_def)
  have b: "faultAt noValidationPage [281] = Some ''Timeout 8000ms exceeded.''"
    by (simp add: noValidationPage_def happyPage_def)
  have c: "faultAt noValidationPage [291] = None"
    by (simp add: noValidationPage_def happyPage_def)
  have d: "(\<forall>s. s \<noteq> [281] \<longrightarrow> faultAt noValidationPage s = None) \<and> hasFrame noValidationPage \<and>
      productUrl buyer = Some ''https://www.finewineandgoodspirits.com/product/000001234'' \<and>
      ''https://www.finewineandgoodspirits.com/product/000001234'' \<noteq> []"
    by (simp add: noValidationPage_def happyPage_def buyer_def)
  have o: "onComplete buyer"
    by (simp add: buyer_def)
  note t = fillShippingInfo_skips_absent_validation [OF a b c,
      of "''https://www.finewineandgoodspirits.com/product/000001234''"]
  have 1: "snd (fillShippingInfo buyer noValidationPage) = Inr ()"
    "Did (Click useAddressButton) \<notin> set (fst (fillShippingInfo buyer noValidationPage))"
    using t [THEN conjunct1]
    by (simp_all add: shippingForm_def useAddressButton_def continueButton_def)
  from t d have 2:
    "stages buyer ''https://www.finewineandgoodspirits.com/product/000001234'' noValidationPage =
          (Did (Goto ''https://www.finewineandgoodspirits.com/product/000001234'') #
           Did (Evaluate ''addSimpleTimer'') #
           [Did (Click (Sel ''button[aria-label=\"Yes, Enter into the site\"]'')),
            Did (WaitForTimeout 300),
            Did (Click (Sel ''button.link:has-text(\"Click to see availability\")'')),
            Did (WaitForSelector ''div[role=\"dialog\"][aria-labelledby=\"fulfillmentMethod\"]'' 3000),
            Did (Evaluate ''selectShip''),
            Did (Click (Sel ''div.pdp__container button.add-to-cart-button'')),
            Did (WaitForTimeout 500)] @
           fst (navigateToCheckout noValidationPage) @ fst (fillContactInfo buyer noValidationPage) @
           (map (Did \<circ> snd) (shippingForm buyer) @
            [Threw (WaitForSelector ''div[role=\"dialog\"][aria-labelledby=\"validationModal\"]'' 8000),
             Did (WaitForSelector ''input[id=\"input_general\"]'' 15000)]) @
           fst (handlePayment buyer noValidationPage),
           snd (handlePayment buyer noValidationPage))"
    by blast
  have 3: "snd (stages buyer ''https://www.finewineandgoodspirits.com/product/000001234''
      noValidationPage) = snd (handlePayment buyer noValidationPage)"
    unfolding 2 by simp
  from t d o have 4: "snd (executeCheckout buyer noValidationPage) = Inr ()"
    "callbacks (fst (executeCheckout buyer noValidationPage)) =
     [OnComplete \<lparr>success = True, message = Some ''Checkout completed'', error = None\<rparr>]"
    by auto
  from b 1 3 4 show ?thesis by blast
qed

section \<open>The CVV loop over the inputs of the payment frame\<close>

lemma tryInput_ok:
  assumes "\<forall>l i. faultAt e [l, i] = None"
  shows "tryInput c e i inp =
    (map Did
      ([IsVisible (Input i) 500, IsEnabled (Input i), GetAttribute (Input i) ''type'',
        GetAttribute (Input i) ''name'', GetAttribute (Input i) ''id''] @
       (if qualifies i inp
        then [Click (Input i), WaitForTimeout 300, Fill (Input i) [], WaitForTimeout 200,
              Fill (Input i) (cvv (paymentInfo c)), WaitForTimeout 400]
        else [])),
     Inr (qualifies i inp))"
  using assms by (simp add: tryInput_def await_ok)

lemma cvvLoop_Cons_ok:
  assumes "\<forall>l i. faultAt e [l, i] = None"
  shows "cvvLoop c e n (inp # inps) =
    (if qualifies n inp then (fst (tryInput c e n inp), Some n)
     else (fst (tryInput c e n inp) @ fst (cvvLoop c e (Suc n) inps),
           snd (cvvLoop c e (Suc n) inps)))"
  by (simp add: tryInput_ok [OF assms] split: prod.splits)

lemma cvvLoop_find:
  assumes "\<forall>l i. faultAt e [l, i] = None"
  shows "snd (cvvLoop c e n inps) =
     map_option fst (find (\<lambda>(i, inp). qualifies i inp) (enumerate n inps))"
  by (induction inps arbitrary: n) (simp_all add: cvvLoop_Cons_ok [OF assms] del: cvvLoop.simps(2))

lemma cvvLoop_fills_chosen:
  assumes "\<forall>l i. faultAt e [l, i] = None"
  shows "snd (cvvLoop c e n inps) = Some i \<Longrightarrow>
     Did (Fill (Input i) (cvv (paymentInfo c))) \<in> set (fst (cvvLoop c e n inps))"
  by (induction inps arbitrary: n)
     (auto simp: cvvLoop_Cons_ok [OF assms] tryInput_ok [OF assms] simp del: cvvLoop.simps(2)
        split: if_splits)

lemma cvvLoop_fills_only_chosen:
  assumes "\<forall>l i. faultAt e [l, i] = None"
  shows "Did (Fill (Input j) x) \<in> set (fst (cvvLoop c e n inps)) \<Longrightarrow>
     snd (cvvLoop c e n inps) = Some j"
  by (induction inps arbitrary: n)
     (auto simp: cvvLoop_Cons_ok [OF assms] tryInput_ok [OF assms] simp del: cvvLoop.simps(2)
        split: if_splits)

lemma find_enumerate_Some:
  "map_option fst (find (\<lambda>(i, x). P i x) (enumerate 0 xs)) = Some i \<longleftrightarrow>
   i < length xs \<and> P i (xs ! i) \<and> (\<forall>j<i. \<not> P j (xs ! j))" (is "?L \<longleftrightarrow> ?R")
proof
  assume ?L
  then obtain y where "find (\<lambda>(i, x). P i x) (enumerate 0 xs) = Some (i, y)"
    by (cases "find (\<lambda>(i, x). P i x) (enumerate 0 xs)") auto
  then obtain k where k: "k < length xs" "case enumerate 0 xs ! k of (i, x) \<Rightarrow> P i x"
      "(i, y) = enumerate 0 xs ! k"
      "\<forall>j<k. \<not> (case enumerate 0 xs ! j of (i, x) \<Rightarrow> P i x)"
    by (auto simp: find_Some_iff)
  from k(1,3) have ki: "k = i" by (simp add: nth_enumerate_eq)
  have "\<not> P j (xs ! j)" if "j < i" for j
    using k(4) k(1) that ki by (auto simp: nth_enumerate_eq)
  with k(1,2) ki show ?R by (simp add: nth_enumerate_eq)
next
  assume r: ?R
  have "find (\<lambda>(i, x). P i x) (enumerate 0 xs) = Some (i, xs ! i)"
    unfolding find_Some_iff
  proof (intro exI [of _ i] conjI allI impI)
    show "i < length (enumerate 0 xs)" using r by simp
    show "case enumerate 0 xs ! i of (i, x) \<Rightarrow> P i x" using r by (simp add: nth_enumerate_eq)
    show "(i, xs ! i) = enumerate 0 xs ! i" using r by (simp add: nth_enumerate_eq)
    fix j assume "j < i"
    then show "\<not> (case enumerate 0 xs ! j of (i, x) \<Rightarrow> P i x)"
      using r by (simp add: nth_enumerate_eq)
  qed
  then show ?L by simp
qed

lemma tryInput_True: "snd (tryInput c e i inp) = Inr True \<Longrightarrow> qualifies i inp"
  by (auto simp: tryInput_def snd_bnd split: sum.splits if_splits)

lemma cvvLoop_Some:
  "snd (cvvLoop c e n inps) = Some i \<Longrightarrow>
   n \<le> i \<and> i < n + length inps \<and> qualifies i (inps ! (i - n))"
proof (induction inps arbitrary: n)
  case Nil
  then show ?case by simp
next
  case (Cons inp inps)
  show ?case
  proof (cases "snd (tryInput c e n inp) = Inr True")
    case True
    then have "cvvLoop c e n (inp # inps) = (fst (tryInput c e n inp), Some n)"
      by (cases "tryInput c e n inp") simp
    with Cons.prems True show ?thesis
      by (simp add: tryInput_True)
  next
    case False
    then have "snd (cvvLoop c e n (inp # inps)) = snd (cvvLoop c e (Suc n) inps)"
      by (cases "tryInput c e n inp") (auto split: sum.splits bool.splits prod.splits)
    with Cons.prems have "snd (cvvLoop c e (Suc n) inps) = Some i"
      by simp
    from Cons.IH [OF this]
    have h: "Suc n \<le> i" "i < Suc n + length inps" "qualifies i (inps ! (i - Suc n))"
      by auto
    have "i - n = Suc (i - Suc n)"
      using h(1) by simp
    then have "(inp # inps) ! (i - n) = inps ! (i - Suc n)"
      by simp
    with h show ?thesis by simp
  qed
qed

text \<open>
  What the loop does in general. The input it enters the CVV into is never the one at
  index 0 and is visible, enabled and not of type \<open>hidden\<close>; when the probes and actions
  on the inputs resolve, it is the first index that passes line 338, whichever input
  holds the card number.
\<close>

lemma cvvLoop_first_passing_input:
  "(snd (cvvLoop c e 0 inps) = Some i \<longrightarrow>
      i < length inps \<and> 0 < i \<and> isVisible (inps ! i) \<and> isEnabled (inps ! i) \<and>
      orEmpty (typeAttr (inps ! i)) \<noteq> ''hidden'') \<and>
   ((\<forall>l i. faultAt e [l, i] = None) \<longrightarrow>
      (snd (cvvLoop c e 0 inps) = Some i \<longleftrightarrow>
         i < length inps \<and> qualifies i (inps ! i) \<and> (\<forall>j<i. \<not> qualifies j (inps ! j))) \<and>
      (snd (cvvLoop c e 0 inps) = Some i \<longrightarrow>
         Did (Fill (Input i) (cvv (paymentInfo c))) \<in> set (fst (cvvLoop c e 0 inps))) \<and>
      (\<forall>j x. Did (Fill (Input j) x) \<in> set (fst (cvvLoop c e 0 inps)) \<longrightarrow>
         snd (cvvLoop c e 0 inps) = Some j) \<and>
      snd (cvvLoop c e 0 fourInputs) = Some 1)"
proof -
  have sound: "i < length inps \<and> 0 < i \<and> isVisible (inps ! i) \<and> isEnabled (inps ! i) \<and>
      orEmpty (typeAttr (inps ! i)) \<noteq> ''hidden''" if "snd (cvvLoop c e 0 inps) = Some i"
    using cvvLoop_Some [OF that] by (simp add: qualifies_def)
  have complete:
    "(snd (cvvLoop c e 0 inps) = Some i \<longleftrightarrow>
         i < length inps \<and> qualifies i (inps ! i) \<and> (\<forall>j<i. \<not> qualifies j (inps ! j))) \<and>
      (snd (cvvLoop c e 0 inps) = Some i \<longrightarrow>
         Did (Fill (Input i) (cvv (paymentInfo c))) \<in> set (fst (cvvLoop c e 0 inps))) \<and>
      (\<forall>j x. Did (Fill (Input j) x) \<in> set (fst (cvvLoop c e 0 inps)) \<longrightarrow>
         snd (cvvLoop c e 0 inps) = Some j) \<and>
      snd (cvvLoop c e 0 fourInputs) = Some 1" if a: "\<forall>l i. faultAt e [l, i] = None"
  proof -
    have 1: "snd (cvvLoop c e 0 inps) = Some i \<longleftrightarrow>
        i < length inps \<and> qualifies i (inps ! i) \<and> (\<forall>j<i. \<not> qualifies j (inps ! j))" for inps i
      unfolding cvvLoop_find [OF a] by (rule find_enumerate_Some)
    have 2: "snd (cvvLoop c e 0 fourInputs) = Some 1"
      unfolding 1
      by (simp add: fourInputs_def qualifies_def hiddenInput_def textInput_def orEmpty_def
            orDefault_def)
    show ?thesis
      using 1 [of inps i] 2 cvvLoop_fills_chosen [OF a, of c 0 inps i]
        cvvLoop_fills_only_chosen [OF a, of _ _ c 0 inps]
      by blast
  qed
  from sound complete show ?thesis by blast
qed

lemma fills_append [simp]: "fills (es @ es') = fills es @ fills es'"
  by (simp add: fills_def)

lemma fills_simps [simp]:
  "fills [] = []"
  "fills (Did (Fill t x) # es) = (t, x) # fills es"
  "fills (Did (Click t) # es) = fills es"
  "fills (Did (WaitForTimeout n) # es) = fills es"
  "fills (Did (WaitFor t s n) # es) = fills es"
  "fills (Did (IsVisible t n) # es) = fills es"
  "fills (Did (IsEnabled t) # es) = fills es"
  "fills (Did (GetAttribute t a) # es) = fills es"
  "fills (Did ContentFrame # es) = fills es"
  "fills (Did AllInputs # es) = fills es"
  "fills (Did MonitorPaymentErrors # es) = fills es"
  by (simp_all add: fills_def)

text \<open>
  Claim C2, on the page with the inputs \<open>[hidden, visible text, visible text, hidden]\<close>.
  The card-number locator of line 310 resolves to the second input (index 1), and the
  card number is typed there. The loop of lines 327-353 skips index 0 only, which here is
  the hidden input and not the card field, and enters the CVV into index 1 again: the
  same input is first cleared and then filled with the CVV, the third input (index 2) is
  never typed into, and \<open>handlePayment\<close> returns success.
\<close>

theorem handlePayment_cvv_over_card_number:
  \<open>cardFieldIndex 0 (allInputs fourInputsPage) = Some 1 \<and>
   snd (cvvLoop buyer fourInputsPage 0 (allInputs fourInputsPage)) = Some 1 \<and>
   fills (fst (handlePayment buyer fourInputsPage)) =
     [(Sel ''input[id="input_general"]'', ''ADA BYRON''),
      (cardField, []), (cardField, ''4000056655665556''),
      (Input 1, []), (Input 1, ''737''),
      (expiryField, ''11/29'')] \<and>
   snd (handlePayment buyer fourInputsPage) =
     Inr \<lparr>success = True, message = None, error = None\<rparr>\<close>
proof -
  have a: "\<forall>s. faultAt fourInputsPage s = None" "\<forall>l i. faultAt fourInputsPage [l, i] = None"
    "hasFrame fourInputsPage" "cardVisible fourInputsPage" "placeEnabled fourInputsPage"
    by (simp_all add: fourInputsPage_def happyPage_def)
  have i: "allInputs fourInputsPage = fourInputs"
    by (simp add: fourInputsPage_def happyPage_def)
  have ci: "cardFieldIndex 0 fourInputs = Some 1"
    by (simp add: fourInputs_def hiddenInput_def textInput_def)
  have q: "\<not> qualifies 0 hiddenInput" "qualifies (Suc 0) textInput"
    by (simp_all add: qualifies_def hiddenInput_def textInput_def orEmpty_def orDefault_def)
  have l: "cvvLoop buyer fourInputsPage 0 fourInputs =
     (map Did
        [IsVisible (Input 0) 500, IsEnabled (Input 0), GetAttribute (Input 0) ''type'',
         GetAttribute (Input 0) ''name'', GetAttribute (Input 0) ''id'',
         IsVisible (Input 1) 500, IsEnabled (Input 1), GetAttribute (Input 1) ''type'',
         GetAttribute (Input 1) ''name'', GetAttribute (Input 1) ''id'',
         Click (Input 1), WaitForTimeout 300, Fill (Input 1) [], WaitForTimeout 200,
         Fill (Input 1) ''737'', WaitForTimeout 400], Some 1)"
    by (simp add: fourInputs_def tryInput_ok [OF a(2)] q buyer_def)
  have m: "monitorPaymentErrors fourInputsPage =
        \<lparr>errorFound = False, errorMessage = [], timing = maxChecks * 200\<rparr>"
    unfolding monitorPaymentErrors_def
    by (intro checkForErrors_none notI allI impI)
       (auto simp: maxChecks_def fourInputsPage_def happyPage_def dest!: scanSelectors_Some)
  have p1: "steps fourInputsPage (paymentPrelude buyer) =
      (map (Did \<circ> snd) (paymentPrelude buyer), Inr ())"
    using a(1) by (intro steps_ok) simp
  have p2: "enterCardNumber buyer fourInputsPage =
      (map Did [IsVisible cardField 3000, Click cardField, WaitForTimeout 200, Fill cardField [],
         WaitForTimeout 800, Fill cardField ''4000056655665556'', WaitForTimeout 400], Inr ())"
    using a(1,4) by (simp add: enterCardNumber_def await_ok buyer_def)
  have p3: "enterCvv buyer fourInputsPage =
      (Did AllInputs # fst (cvvLoop buyer fourInputsPage 0 fourInputs), Inr ())"
    using a(1) by (simp add: enterCvv_def await_ok i l)
  have p4: "enterExpiry buyer fourInputsPage =
      (map Did [Click expiryField, WaitForTimeout 300, Fill expiryField ''11/29'',
         WaitForTimeout 300], Inr ())"
    using a(1) by (simp add: enterExpiry_def await_ok buyer_def)
  have p5: "placeOrder fourInputsPage =
      (map Did [WaitFor placeOrderButton ''visible'' 2000, IsEnabled placeOrderButton,
         MonitorPaymentErrors, Click placeOrderButton],
       Inr \<lparr>success = True, message = None, error = None\<rparr>)"
    using a(1,5) by (simp add: placeOrder_def await_ok m)
  have h: "handlePayment buyer fourInputsPage =
      (map (Did \<circ> snd) (paymentPrelude buyer) @ fst (enterCardNumber buyer fourInputsPage) @
       fst (enterCvv buyer fourInputsPage) @ fst (enterExpiry buyer fourInputsPage) @
       fst (placeOrder fourInputsPage),
       Inr \<lparr>success = True, message = None, error = None\<rparr>)"
    using a(3) by (simp add: handlePayment_def p1 p2 p3 p4 p5)
  have f: "fills (fst (handlePayment buyer fourInputsPage)) =
     [(Sel ''input[id=\"input_general\"]'', ''ADA BYRON''),
      (cardField, []), (cardField, ''4000056655665556''),
      (Input 1, []), (Input 1, ''737''),
      (expiryField, ''11/29'')]"
    unfolding h p2 p3 p4 p5 l by (simp add: paymentPrelude_def buyer_def)
  show ?thesis
    using ci l f h by (simp add: i)
qed

section \<open>Placeholder data\<close>

lemma shape_pure [simp]: "shape ([], r) = ([], r)"
  by (simp add: shape_def)

lemma shape_await: "shape (await e s c) = await e s (shapeCall c)"
  by (simp add: shape_def await_def split: option.splits)

lemma shape_bnd: "shape (bnd m f) = bnd (shape m) (\<lambda>a. shape (f a))"
  by (cases m) (auto simp: shape_def bnd_def split: sum.splits prod.splits)

lemma shape_steps: "shape (steps e cs) = steps e (map (\<lambda>sc. (fst sc, shapeCall (snd sc))) cs)"
proof (induction cs)
  case Nil
  show ?case by simp
next
  case (Cons sc cs)
  obtain s c where sc: "sc = (s, c)" by (cases sc)
  show ?case
    by (simp add: sc shape_bnd shape_await Cons)
qed

lemma shape_tryCatch: "shape (tryCatch m h) = tryCatch (shape m) (\<lambda>x. shape (h x))"
  by (cases m) (auto simp: shape_def tryCatch_def split: sum.splits prod.splits)

lemma shape_tryFinally: "shape (tryFinally m fin) = tryFinally (shape m) (shape fin)"
  by (cases m; cases fin) (auto simp: shape_def tryFinally_def split: sum.splits)

lemma shape_swallow: "shape (swallow m) = swallow (shape m)"
  by (simp add: swallow_def shape_tryCatch)

lemma shape_if: "shape (if b then m else m') = (if b then shape m else shape m')"
  by simp

lemmas shape_simps = shape_bnd shape_steps shape_await shape_tryCatch shape_tryFinally
  shape_swallow shape_if shapeCall_def

lemma shape_fillContactInfo: "shape (fillContactInfo c e) = shape (fillContactInfo c' e)"
  by (simp add: fillContactInfo_def shape_simps del: steps.simps)

lemma shape_fillShippingInfo: "shape (fillShippingInfo c e) = shape (fillShippingInfo c' e)"
  by (simp add: fillShippingInfo_def shippingForm_def shape_simps del: steps.simps)

lemma shape_enterCardNumber: "shape (enterCardNumber c e) = shape (enterCardNumber c' e)"
  by (simp add: enterCardNumber_def shape_simps del: steps.simps)

lemma shape_tryInput: "shape (tryInput c e i inp) = shape (tryInput c' e i inp)"
  by (simp add: tryInput_def shape_simps del: steps.simps)

lemma shape_cvvLoop_Cons:
  "shape (cvvLoop c e i (inp # rest)) =
     (case shape (tryInput c e i inp) of
        (es, Inr True) \<Rightarrow> (es, Some i)
      | (es, r) \<Rightarrow> (case shape (cvvLoop c e (Suc i) rest) of (es', found) \<Rightarrow> (es @ es', found)))"
  by (simp add: shape_def split: prod.splits sum.splits bool.splits)

lemma shape_cvvLoop: "shape (cvvLoop c e i inps) = shape (cvvLoop c' e i inps)"
proof (induction inps arbitrary: i)
  case Nil
  show ?case by simp
next
  case (Cons inp inps)
  show ?case
    unfolding shape_cvvLoop_Cons Cons shape_tryInput [of c e i inp c'] ..
qed

lemma shape_trySelector: "shape (trySelector c e j sel) = shape (trySelector c' e j sel)"
  by (simp add: trySelector_def shape_simps del: steps.simps)

lemma shape_fallbackLoop_Cons:
  "shape (fallbackLoop c e j (sel # rest)) =
     (case shape (trySelector c e j sel) of
        (es, Inr True) \<Rightarrow> (es, Some sel)
      | (es, r) \<Rightarrow> (case shape (fallbackLoop c e (Suc j) rest) of (es', found) \<Rightarrow> (es @ es', found)))"
  by (simp add: shape_def split: prod.splits sum.splits bool.splits)

lemma shape_fallbackLoop: "shape (fallbackLoop c e j sels) = shape (fallbackLoop c' e j sels)"
proof (induction sels arbitrary: j)
  case Nil
  show ?case by simp
next
  case (Cons sel sels)
  show ?case
    unfolding shape_fallbackLoop_Cons Cons shape_trySelector [of c e j sel c'] ..
qed

lemma shape_enterCvv_unfold:
  "shape (enterCvv c e) =
     bnd (await e [323] AllInputs) (\<lambda>_.
       case shape (cvvLoop c e 0 (allInputs e)) of
         (es, Some i) \<Rightarrow> (es, Inr ())
       | (es, None) \<Rightarrow>
           (case shape (fallbackLoop c e 0 cvvSelectors) of (es', found) \<Rightarrow> (es @ es', Inr ())))"
proof -
  have inner: "shape (case cvvLoop c e 0 (allInputs e) of
         (es, Some i) \<Rightarrow> (es, Inr ())
       | (es, None) \<Rightarrow>
           (case fallbackLoop c e 0 cvvSelectors of (es', found) \<Rightarrow> (es @ es', Inr ()))) =
     (case shape (cvvLoop c e 0 (allInputs e)) of
         (es, Some i) \<Rightarrow> (es, Inr ())
       | (es, None) \<Rightarrow>
           (case shape (fallbackLoop c e 0 cvvSelectors) of (es', found) \<Rightarrow> (es @ es', Inr ())))"
    by (cases "cvvLoop c e 0 (allInputs e)"; cases "fallbackLoop c e 0 cvvSelectors")
       (auto simp: shape_def split: option.splits)
  show ?thesis
    unfolding enterCvv_def shape_bnd inner shape_await by (simp add: shapeCall_def)
qed

lemma shape_enterCvv: "shape (enterCvv c e) = shape (enterCvv c' e)"
  unfolding shape_enterCvv_unfold shape_cvvLoop [of c e 0 _ c'] shape_fallbackLoop [of c e 0 _ c'] ..

lemma shape_enterExpiry: "shape (enterExpiry c e) = shape (enterExpiry c' e)"
  by (simp add: enterExpiry_def shape_simps del: steps.simps)

lemma shape_handlePayment: "shape (handlePayment c e) = shape (handlePayment c' e)"
  by (simp add: handlePayment_def paymentPrelude_def shape_simps
        shape_enterCardNumber [of c e c'] shape_enterCvv [of c e c'] shape_enterExpiry [of c e c']
        del: steps.simps)

lemma shape_stages: "shape (stages c url e) = shape (stages c' url' e)"
  by (simp add: stages_def shape_simps
        shape_fillContactInfo [of c e c'] shape_fillShippingInfo [of c e c']
        shape_handlePayment [of c e c']
        del: steps.simps)

lemma shape_tryBlock:
  "onComplete c = onComplete c' \<Longrightarrow> shape (tryBlock c url e) = shape (tryBlock c' url' e)"
  by (simp add: tryBlock_def shape_simps shape_stages [of c url e c' url'])

lemma shape_catchBlock:
  "onError c = onError c' \<Longrightarrow> shape (catchBlock c e m) = shape (catchBlock c' e m)"
  by (simp add: catchBlock_def shape_simps)

lemma shape_executeCheckout:
  assumes "truthy (productUrl c) = truthy (productUrl c')"
    and "onComplete c = onComplete c'" and "onError c = onError c'"
  shows "shape (executeCheckout c e) = shape (executeCheckout c' e)"
proof (cases "truthy (productUrl c)")
  case False
  with assms(1) show ?thesis
    by (auto simp: executeCheckout_def truthy_def split: option.splits)
next
  case True
  then obtain url where u: "productUrl c = Some url" "url \<noteq> []"
    by (auto simp: truthy_def split: option.splits)
  from True assms(1) obtain url' where u': "productUrl c' = Some url'" "url' \<noteq> []"
    by (auto simp: truthy_def split: option.splits)
  show ?thesis
    by (simp add: executeCheckout_def u u' createBrowser_def shape_simps
          shape_tryBlock [OF assms(2), of url e url'] shape_catchBlock [OF assms(3)]
          del: steps.simps)
qed

text \<open>
  Claim C10. The constructor returns the object built from the options whatever
  \<open>validateConfiguration\<close> finds; the method only logs: the warning when one of the
  current values is a test value, one information line otherwise. Two runs on the same
  page whose buyers agree on the presence of a product URL and of each callback have
  the same shape and the same result, whatever their data: the calls, their order and
  their outcomes do not depend on whether the data are placeholders.
\<close>

theorem placeholder_data_only_warns:
  "fst (FWGSCheckout opts penv) = newCheckout opts penv \<and>
   snd (FWGSCheckout opts penv) =
     (if \<exists>v\<in>set (currentValues (newCheckout opts penv)). v \<in> set testValues
      then warningLines else [''Using configured personal information for checkout'']) \<and>
   (truthy (productUrl c) = truthy (productUrl c') \<and> onComplete c = onComplete c' \<and>
    onError c = onError c' \<longrightarrow>
      shape (executeCheckout c e) = shape (executeCheckout c' e))"
proof (intro conjI impI)
  show "fst (FWGSCheckout opts penv) = newCheckout opts penv"
    by (simp add: FWGSCheckout_def Let_def)
  show "snd (FWGSCheckout opts penv) =
     (if \<exists>v\<in>set (currentValues (newCheckout opts penv)). v \<in> set testValues
      then warningLines else [''Using configured personal information for checkout''])"
    by (simp add: FWGSCheckout_def Let_def validateConfiguration_def usingTestData_def
          list_ex_iff)
next
  assume "truthy (productUrl c) = truthy (productUrl c') \<and> onComplete c = onComplete c' \<and>
    onError c = onError c'"
  then show "shape (executeCheckout c e) = shape (executeCheckout c' e)"
    by (intro shape_executeCheckout) simp_all
qed

theorem placeholder_data_only_warns_witness:
  "usingTestData (fst (FWGSCheckout urlOnly Map.empty)) \<and>
   snd (FWGSCheckout urlOnly Map.empty) = warningLines \<and>
   cardNumber (paymentInfo (fst (FWGSCheckout urlOnly Map.empty))) = ''4111111111111111'' \<and>
   shape (executeCheckout (fst (FWGSCheckout urlOnly Map.empty)) happyPage) =
     shape (executeCheckout buyer happyPage)"
proof -
  note t = placeholder_data_only_warns [of urlOnly Map.empty
      "fst (FWGSCheckout urlOnly Map.empty)" buyer happyPage]
  have n: "newCheckout urlOnly Map.empty =
     \<lparr>productUrl = Some ''https://www.finewineandgoodspirits.com/product/000001234'',
      userInfo =
        \<lparr>firstName = ''TEST_FIRST'', lastName = ''TEST_LAST'', email = ''test@example.com'',
         phone = ''1234567890''\<rparr>,
      shippingInfo =
        \<lparr>shipFirstName = ''TEST_FIRST'', shipLastName = ''TEST_LAST'', address = ''520 CHESTNUT ST'',
         city = ''PHILADELPHIA'', zipCode = ''19106''\<rparr>,
      paymentInfo =
        \<lparr>cardholderName = ''TEST CARDHOLDER'', cardNumber = ''4111111111111111'', cvv = ''123'',
         expiryDate = ''12/25''\<rparr>,
      headless = True, onComplete = True, onError = True\<rparr>"
    by (simp add: newCheckout_def urlOnly_def orElse_def orDefault_def truthy_def)
  have f: "fst (FWGSCheckout urlOnly Map.empty) = newCheckout urlOnly Map.empty"
    using t by blast
  have u: "usingTestData (fst (FWGSCheckout urlOnly Map.empty))"
    unfolding f n by (simp add: usingTestData_def currentValues_def testValues_def)
  have w: "snd (FWGSCheckout urlOnly Map.empty) = warningLines"
  proof -
    have "\<exists>v\<in>set (currentValues (newCheckout urlOnly Map.empty)). v \<in> set testValues"
      unfolding n by (simp add: currentValues_def testValues_def)
    with t show ?thesis by simp
  qed
  have h: "truthy (productUrl (fst (FWGSCheckout urlOnly Map.empty))) = truthy (productUrl buyer) \<and>
      onComplete (fst (FWGSCheckout urlOnly Map.empty)) = onComplete buyer \<and>
      onError (fst (FWGSCheckout urlOnly Map.empty)) = onError buyer"
    unfolding f n by (simp add: buyer_def truthy_def)
  have s: "shape (executeCheckout (fst (FWGSCheckout urlOnly Map.empty)) happyPage) =
     shape (executeCheckout buyer happyPage)"
    using t h by blast
  have c: "cardNumber (paymentInfo (fst (FWGSCheckout urlOnly Map.empty))) = ''4111111111111111''"
    unfolding f n by simp
  from u w c s show ?thesis by blast
qed


end
